theory Spec2Isabelle
  imports Main
begin

section \<open>Text\<close>

text \<open>
  A Python \<^verbatim>\<open>str\<close> is a sequence of Unicode code points, so text is a list of
  natural numbers. \<open>u\<close> turns an ASCII literal into such a list. Paths are kept in the
  form \<^verbatim>\<open>str(path)\<close> gives (pathlib has already collapsed repeated and trailing
  separators), so \<^verbatim>\<open>Path(x)\<close> of such a text is the text itself.
\<close>

type_synonym ustr = "nat list"

definition u :: "string \<Rightarrow> ustr" where
  "u s = map of_char s"

definition is_linebreak :: "nat \<Rightarrow> bool" where
  \<comment> \<open>the line boundaries of \<^verbatim>\<open>str.splitlines\<close>: LF, VT, FF, CR, FS, GS, RS, NEL, LS, PS\<close>
  "is_linebreak c \<longleftrightarrow> c \<in> {10, 11, 12, 13, 28, 29, 30, 133, 8232, 8233}"

text \<open>
  \<^verbatim>\<open>str.splitlines()\<close> without \<^verbatim>\<open>keepends\<close>: CR LF counts as one boundary, and a
  boundary at the very end does not open a further, empty line.
\<close>

fun splitlines_from :: "ustr \<Rightarrow> ustr \<Rightarrow> ustr list" where
  "splitlines_from acc [] = (if acc = [] then [] else [rev acc])"
| "splitlines_from acc [x] = (if is_linebreak x then [rev acc] else [rev (x # acc)])"
| "splitlines_from acc (x # y # ys) =
     (if x = 13 \<and> y = 10 then rev acc # splitlines_from [] ys
      else if is_linebreak x then rev acc # splitlines_from [] (y # ys)
      else splitlines_from (x # acc) (y # ys))"

definition splitlines :: "ustr \<Rightarrow> ustr list" where
  "splitlines s = splitlines_from [] s"

text \<open>
  \<^verbatim>\<open>str.split(sep)\<close> with a one-character separator: every occurrence separates, so
  two separators in a row give an empty field, and the result is never empty.
\<close>

fun split_from :: "nat \<Rightarrow> ustr \<Rightarrow> ustr \<Rightarrow> ustr list" where
  "split_from sep acc [] = [rev acc]"
| "split_from sep acc (x # xs) =
     (if x = sep then rev acc # split_from sep [] xs else split_from sep (x # acc) xs)"

definition str_split :: "nat \<Rightarrow> ustr \<Rightarrow> ustr list" where
  "str_split sep s = split_from sep [] s"

section \<open>Errors\<close>

datatype error =
    RuntimeError ustr
  | TypeError
  | IndexError
  | ValueError
  | ReError
  | OSError
  | FileExistsError
  | CalledProcessError int ustr

section \<open>The file pattern\<close>

text \<open>
  \<^verbatim>\<open>file_pattern = re.compile(r'^.+\[(.+)\]:$')\<close> and \<^verbatim>\<open>file_pattern.match(s)\<close>.
  A dot takes any character but LF, and \<^verbatim>\<open>$\<close> also matches just before an LF that
  ends the text. So the text, less such an LF, is \<open>X [ Y ] :\<close> with \<open>X\<close> and \<open>Y\<close> not
  empty and free of LF. Both \<^verbatim>\<open>.+\<close> are greedy: group 1 starts after the last
  opening bracket that leaves \<open>X\<close> and \<open>Y\<close> non-empty. The result is group 1, or
  \<open>None\<close> where Python's \<^verbatim>\<open>match\<close> returns \<^verbatim>\<open>None\<close>.
\<close>

definition file_pattern_match :: "ustr \<Rightarrow> ustr option" where
  "file_pattern_match s =
     (let body = (if s \<noteq> [] \<and> last s = 10 then butlast s else s);
          core = take (length body - 2) body;
          opens = filter (\<lambda>i. core ! i = 91) [1 ..< length core - 1]
      in if 10 \<in> set body \<or> length body < 2 \<or> drop (length body - 2) body \<noteq> [93, 58]
            \<or> opens = []
         then None
         else Some (drop (Suc (last opens)) core))"

section \<open>The world of a run\<close>

text \<open>
  The file system is a map from files to nodes. A file is named by its canonical
  path, the one the operating system reaches after following \<^verbatim>\<open>..\<close>, links and
  case rules; every path the script uses is taken to its canonical path (\<open>realpath\<close>
  of the environment) before the map is read or changed, so two spellings of one file
  are one entry. Which path names which file is taken as fixed during a run.
\<close>

datatype node = File ustr | Dir

type_synonym filesys = "ustr \<Rightarrow> node option"

datatype command = Argv "ustr list" | Shell ustr

datatype proc = NotStarted | Completed int ustr ustr

text \<open>What a run does to the outside, in the order it does it.\<close>

datatype event =
    Which ustr
  | Exec command "ustr option"
  | ReCompile "ustr option"
  | ReMatch ustr
  | Mkdtemp ustr
  | WriteText ustr ustr
  | Print ustr
  | PrintErr ustr
  | Rmtree ustr

record world =
  fs :: filesys
  trace :: "event list"

text \<open>
  Everything the script takes from outside itself:
  \<^item> \<open>which\<close>: \<^verbatim>\<open>shutil.which\<close>, a look-up in the search path on the current files;
  \<^item> \<open>cwd\<close>: the working directory of the process, an absolute path;
  \<^item> \<open>realpath\<close>: the canonical path of the file an absolute path names;
  \<^item> \<open>writable\<close>: whether the operating system lets the process create or replace
    the file or directory of a canonical path on the current files (the parent
    directory is there and may be written to, and so on);
  \<^item> \<open>run_proc\<close>: an external program, started with a command and a working directory
    on the current files: how it ends, and the files it leaves;
  \<^item> \<open>re_valid\<close>, \<open>re_match\<close>: the regular-expression engine: whether
    \<^verbatim>\<open>re.compile\<close> accepts a pattern, and whether \<^verbatim>\<open>pattern.match(s)\<close>, which
    matches at the start of \<open>s\<close> only, finds a match;
  \<^item> \<open>tmp_names\<close>: the directory names \<^verbatim>\<open>mkdtemp\<close> tries, in turn (absolute
    paths in the temporary directory, the last component beginning with
    \<^verbatim>\<open>cerbero\<close>);
  \<^item> \<open>set_iter\<close>: the order in which a set built by the given sequence of
    \<^verbatim>\<open>add\<close> calls is iterated (Python leaves it open; it depends on the hashes).
\<close>

record env =
  which :: "filesys \<Rightarrow> ustr \<Rightarrow> ustr option"
  cwd :: ustr
  realpath :: "ustr \<Rightarrow> ustr"
  writable :: "filesys \<Rightarrow> ustr \<Rightarrow> bool"
  run_proc :: "command \<Rightarrow> ustr option \<Rightarrow> filesys \<Rightarrow> proc \<times> filesys"
  re_valid :: "ustr \<Rightarrow> bool"
  re_match :: "ustr \<Rightarrow> ustr \<Rightarrow> bool"
  tmp_names :: "ustr list"
  set_iter :: "ustr list \<Rightarrow> ustr list"

text \<open>
  A statement of the script takes the world and gives a value or the exception it
  raises, with the world it leaves.
\<close>

type_synonym 'a act = "world \<Rightarrow> (error + 'a) \<times> world"

definition ret :: "'a \<Rightarrow> 'a act" where
  "ret x w = (Inr x, w)"

definition raise :: "error \<Rightarrow> 'a act" where
  "raise e w = (Inl e, w)"

definition and_then :: "'a act \<Rightarrow> ('a \<Rightarrow> 'b act) \<Rightarrow> 'b act" where
  "and_then m f w = (case m w of (Inl e, w') \<Rightarrow> (Inl e, w') | (Inr x, w') \<Rightarrow> f x w')"

definition emit :: "event \<Rightarrow> unit act" where
  "emit ev w = (Inr (), w\<lparr>trace := trace w @ [ev]\<rparr>)"

section \<open>The listing loop\<close>

text \<open>
  One turn of the loop over the listing (lines 85 to 90 of strip.py), on the set
  \<open>keep\<close>, which is held as the sequence of its \<^verbatim>\<open>add\<close> calls:
  \<^verbatim>\<open>
    data = line.split(' ')
    object_file = file_pattern.match(data[0])[1]
    symbol = data[1]
    if symbol_pattern.match(symbol):
        symbols_to_keep.add(symbol)
  \<close>
  Subscripting the \<^verbatim>\<open>None\<close> of a failed match raises TypeError, \<^verbatim>\<open>data[1]\<close> on a
  line of one field raises IndexError.
\<close>

definition process_line :: "env \<Rightarrow> ustr \<Rightarrow> ustr \<Rightarrow> ustr list \<Rightarrow> (ustr list) act" where
  "process_line E symbol_pattern line keep =
     (case str_split 32 line of
        [] \<Rightarrow> raise IndexError
      | d0 # rest \<Rightarrow>
          (case file_pattern_match d0 of
             None \<Rightarrow> raise TypeError
           | Some object_file \<Rightarrow>
               (case rest of
                  [] \<Rightarrow> raise IndexError
                | symbol # _ \<Rightarrow>
                    and_then (emit (ReMatch symbol)) (\<lambda>_.
                      if re_match E symbol_pattern symbol
                      then ret (keep @ [symbol]) else ret keep))))"

fun symbols_loop :: "env \<Rightarrow> ustr \<Rightarrow> ustr list \<Rightarrow> ustr list \<Rightarrow> (ustr list) act" where
  "symbols_loop E symbol_pattern [] keep = ret keep"
| "symbols_loop E symbol_pattern (line # lines) keep =
     and_then (process_line E symbol_pattern line keep) (symbols_loop E symbol_pattern lines)"

text \<open>The two fields of a line, as the loop reads them.\<close>

definition first_field :: "ustr \<Rightarrow> ustr" where
  "first_field line = hd (str_split 32 line)"

definition symbol_field :: "ustr \<Rightarrow> ustr option" where
  "symbol_field line = (case tl (str_split 32 line) of [] \<Rightarrow> None | s # _ \<Rightarrow> Some s)"

definition well_formed :: "ustr \<Rightarrow> bool" where
  "well_formed line \<longleftrightarrow> file_pattern_match (first_field line) \<noteq> None \<and> symbol_field line \<noteq> None"

section \<open>Paths\<close>

text \<open>
  The parts of pathlib the script uses, on the text of a path. \<open>47\<close> is the slash and
  \<open>46\<close> the dot. The name of a path is its last component; \<^verbatim>\<open>.\<close> and the root have
  none. The suffix starts at the last dot of the name, unless that dot is its first or
  its last character (pathlib of Python 3.10 to 3.13).
\<close>

definition path_name :: "ustr \<Rightarrow> ustr" where
  "path_name p = (if p = [46] then [] else rev (takeWhile (\<lambda>c. c \<noteq> 47) (rev p)))"

definition path_suffix :: "ustr \<Rightarrow> ustr" where
  "path_suffix p =
     (let name = path_name p; after = takeWhile (\<lambda>c. c \<noteq> 46) (rev name)
      in if length after = length name then []
         else (let i = length name - length after - 1
               in if 0 < i \<and> i + 1 < length name then drop i name else []))"

definition with_suffix :: "ustr \<Rightarrow> ustr \<Rightarrow> error + ustr" where
  "with_suffix p suffix =
     (if 47 \<in> set suffix then Inl ValueError
      else if (suffix \<noteq> [] \<and> hd suffix \<noteq> 46) \<or> suffix = [46] then Inl ValueError
      else if path_name p = [] then Inl ValueError
      else Inr (take (length p - length (path_suffix p)) p @ suffix))"

definition is_absolute :: "ustr \<Rightarrow> bool" where
  "is_absolute p \<longleftrightarrow> p \<noteq> [] \<and> hd p = 47"

definition joinpath :: "ustr \<Rightarrow> ustr \<Rightarrow> ustr" where
  "joinpath a b =
     (if is_absolute b then b
      else if b = [] \<or> b = [46] then a
      else if a = [] \<or> a = [46] then b
      else if last a = 47 then a @ b
      else a @ [47] @ b)"

definition absolute :: "env \<Rightarrow> ustr \<Rightarrow> ustr" where
  "absolute E p = (if is_absolute p then p else joinpath (cwd E) p)"

text \<open>The file a path of the script names: relative paths start at the working directory.\<close>

definition locate :: "env \<Rightarrow> ustr \<Rightarrow> ustr" where
  "locate E p = realpath E (absolute E p)"

section \<open>Files and processes\<close>

text \<open>
  Opening a path for writing, writing a text and closing: the file the path names is
  created or replaced. \<^verbatim>\<open>open\<close> raises OSError, and nothing is written, when a
  directory is in its place or the operating system does not let the process write
  there (a missing or protected parent directory, for one). The event names the
  file by its canonical path.
\<close>

definition write_text :: "env \<Rightarrow> ustr \<Rightarrow> ustr \<Rightarrow> unit act" where
  "write_text E p txt w =
     (let q = locate E p
      in if fs w q = Some Dir \<or> \<not> writable E (fs w) q then (Inl OSError, w)
         else (Inr (), w\<lparr>fs := (fs w)(q \<mapsto> File txt), trace := trace w @ [WriteText q txt]\<rparr>))"

text \<open>
  \<^verbatim>\<open>subprocess.run(cmd, cwd=dir, check=True, capture_output=True, text=True)\<close>: a
  program that cannot be started raises OSError and changes nothing; one that exits
  with a status other than 0 raises CalledProcessError, which carries its standard
  error; otherwise the result is the standard output and the standard error.
\<close>

definition subprocess_run :: "env \<Rightarrow> command \<Rightarrow> ustr option \<Rightarrow> (ustr \<times> ustr) act" where
  "subprocess_run E cmd dir w =
     (let w1 = w\<lparr>trace := trace w @ [Exec cmd dir]\<rparr>
      in case run_proc E cmd dir (fs w) of
           (NotStarted, f) \<Rightarrow> (Inl OSError, w1)
         | (Completed rc out err, f) \<Rightarrow>
             if rc \<noteq> 0 then (Inl (CalledProcessError rc err), w1\<lparr>fs := f\<rparr>)
             else (Inr (out, err), w1\<lparr>fs := f\<rparr>))"

text \<open>
  \<^verbatim>\<open>
    try: ...
    except CalledProcessError as e:
        print(e.stderr, file=sys.stderr)
        raise e
  \<close>
\<close>

definition echo_stderr :: "'a act \<Rightarrow> 'a act" where
  "echo_stderr m w =
     (case m w of
        (Inl (CalledProcessError rc err), w') \<Rightarrow>
          (Inl (CalledProcessError rc err), w'\<lparr>trace := trace w' @ [PrintErr err]\<rparr>)
      | (r, w') \<Rightarrow> (r, w'))"

text \<open>
  \<^verbatim>\<open>tempfile.TemporaryDirectory(prefix='cerbero')\<close> as a context manager:
  \<^verbatim>\<open>mkdtemp\<close> makes the first directory of its candidate names that does not exist
  (OSError when it may not be made, FileExistsError when every name is taken), the
  body runs with the name, and the directory is removed with all it holds whether the
  body returned or raised. The removal is taken to succeed. A canonical path is
  inside a directory when it is the directory or continues it after a slash. The
  events name the directory by its canonical path.
\<close>

definition mkdtemp :: "env \<Rightarrow> ustr act" where
  "mkdtemp E w =
     (case filter (\<lambda>t. fs w (realpath E t) = None) (tmp_names E) of
        [] \<Rightarrow> (Inl FileExistsError, w)
      | t # _ \<Rightarrow>
          if writable E (fs w) (realpath E t)
          then (Inr t, w\<lparr>fs := (fs w)(realpath E t \<mapsto> Dir),
                         trace := trace w @ [Mkdtemp (realpath E t)]\<rparr>)
          else (Inl OSError, w))"

definition inside :: "ustr \<Rightarrow> ustr \<Rightarrow> bool" where
  "inside t p \<longleftrightarrow> p = t \<or> take (Suc (length t)) p = t @ [47]"

definition rmtree :: "ustr \<Rightarrow> world \<Rightarrow> world" where
  "rmtree t w =
     w\<lparr>fs := (\<lambda>p. if inside t p then None else fs w p), trace := trace w @ [Rmtree t]\<rparr>"

definition with_tmpdir :: "env \<Rightarrow> (ustr \<Rightarrow> 'a act) \<Rightarrow> 'a act" where
  "with_tmpdir E body w =
     (case mkdtemp E w of
        (Inl e, w1) \<Rightarrow> (Inl e, w1)
      | (Inr tmp, w1) \<Rightarrow> (case body tmp w1 of (r, w2) \<Rightarrow> (r, rmtree (realpath E tmp) w2)))"

section \<open>The script\<close>

record args =
  source :: ustr
  dest :: ustr
  pattern :: "ustr option"
  nm :: "ustr option"

text \<open>
  \<^verbatim>\<open>get_nm\<close>: a path object is never false, so \<^verbatim>\<open>not exe\<close> holds exactly when
  \<^verbatim>\<open>--nm\<close> was not given; the text \<^verbatim>\<open>shutil.which\<close> returns is false when it is
  \<^verbatim>\<open>None\<close> or empty.
\<close>

definition get_nm :: "env \<Rightarrow> args \<Rightarrow> ustr act" where
  "get_nm E a =
     (case nm a of
        None \<Rightarrow>
          and_then (emit (Which (u ''nm''))) (\<lambda>_ w.
            case which E (fs w) (u ''nm'') of
              None \<Rightarrow> raise (RuntimeError (u ''A valid llvm-nm executable is needed'')) w
            | Some alt_exe \<Rightarrow>
                if alt_exe = []
                then raise (RuntimeError (u ''A valid llvm-nm executable is needed'')) w
                else ret alt_exe w)
      | Some exe \<Rightarrow> ret exe)"

definition get_exe :: "env \<Rightarrow> ustr \<Rightarrow> ustr act" where
  "get_exe E name =
     and_then (emit (Which name)) (\<lambda>_ w.
       case which E (fs w) name of
         None \<Rightarrow> raise (RuntimeError (u ''A valid '' @ name @ u '' executable is needed'')) w
       | Some exe \<Rightarrow>
           if exe = []
           then raise (RuntimeError (u ''A valid '' @ name @ u '' executable is needed'')) w
           else ret exe w)"

text \<open>
  \<^verbatim>\<open>re.compile(args.pattern)\<close>: without \<^verbatim>\<open>--pattern\<close> the argument is \<^verbatim>\<open>None\<close>,
  which \<^verbatim>\<open>re.compile\<close> refuses with TypeError (the first argument must be a string
  or a compiled pattern); a text the engine does not accept raises \<^verbatim>\<open>re.error\<close>.
\<close>

definition re_compile :: "env \<Rightarrow> ustr option \<Rightarrow> ustr act" where
  "re_compile E pat =
     and_then (emit (ReCompile pat)) (\<lambda>_.
       case pat of
         None \<Rightarrow> raise TypeError
       | Some p \<Rightarrow> if re_valid E p then ret p else raise ReError)"

definition lift :: "error + 'a \<Rightarrow> 'a act" where
  "lift r w = (r, w)"

text \<open>Lines 94 to 98: the header, then each symbol of the set on a line of its own.\<close>

definition module_text :: "ustr list \<Rightarrow> ustr" where
  "module_text symbols = u ''# Stripped by Cerbero'' @ [10] @ concat (map (\<lambda>symbol. symbol @ [10]) symbols)"

definition write_module :: "env \<Rightarrow> ustr \<Rightarrow> ustr list \<Rightarrow> unit act" where
  "write_module E module symbols_to_keep =
     write_text E module (module_text (set_iter E symbols_to_keep))"

text \<open>Lines 100 to 102. \<^verbatim>\<open>print\<close> ends each text with a line feed, left out here.\<close>

fun print_each :: "ustr list \<Rightarrow> unit act" where
  "print_each [] = ret ()"
| "print_each (symbol # symbols) = and_then (emit (Print (9 # symbol))) (\<lambda>_. print_each symbols)"

definition print_symbols :: "env \<Rightarrow> ustr list \<Rightarrow> unit act" where
  "print_symbols E symbols_to_keep =
     and_then (emit (Print (u ''Symbols to preserve:''))) (\<lambda>_.
       print_each (set_iter E symbols_to_keep))"

text \<open>Lines 105 to 107: the archiver is looked up here, then run in the scratch directory.\<close>

definition unpack :: "env \<Rightarrow> args \<Rightarrow> ustr \<Rightarrow> unit act" where
  "unpack E a tmp =
     and_then (emit (Print (u ''Unpacking '' @ absolute E (source a) @ u '' with ar''))) (\<lambda>_.
     and_then (get_exe E (u ''ar'')) (\<lambda>ar.
     and_then (subprocess_run E (Argv [ar, u ''xv'', absolute E (source a)]) (Some tmp)) (\<lambda>_.
       ret ())))"

text \<open>
  Lines 110 to 117. The linker is looked up again while the command text is built,
  inside the \<^verbatim>\<open>try\<close>; the command goes to the shell, in the scratch directory, with
  the sidecar path as the script holds it.
\<close>

definition prelink :: "env \<Rightarrow> args \<Rightarrow> ustr \<Rightarrow> ustr \<Rightarrow> ustr act" where
  "prelink E a tmp module =
     and_then (emit (Print (u ''Performing Single-Object Prelinking''))) (\<lambda>_.
     and_then (lift (with_suffix (joinpath tmp (path_name (source a))) (u ''.prelinked.o''))) (\<lambda>prelinked_obj.
     and_then (echo_stderr
        (and_then (get_exe E (u ''ld'')) (\<lambda>ld.
           subprocess_run E
             (Shell (ld @ u '' -r -exported_symbols_list '' @ module @ u '' -o '' @ prelinked_obj @ u '' *.o''))
             (Some tmp)))) (\<lambda>_.
       ret prelinked_obj)))"

text \<open>Lines 120 to 126: the only place where the destination is handed to anything.\<close>

definition repack_cmd :: "env \<Rightarrow> args \<Rightarrow> ustr \<Rightarrow> ustr \<Rightarrow> command" where
  "repack_cmd E a libtool prelinked_obj =
     Argv [libtool, u ''-static'', u ''-o'', absolute E (dest a), absolute E prelinked_obj]"

definition repack :: "env \<Rightarrow> args \<Rightarrow> ustr \<Rightarrow> unit act" where
  "repack E a prelinked_obj =
     and_then (emit (Print (u ''Repacking library to '' @ absolute E (dest a)))) (\<lambda>_.
     and_then (echo_stderr
        (and_then (get_exe E (u ''libtool'')) (\<lambda>libtool.
           subprocess_run E (repack_cmd E a libtool prelinked_obj) None))) (\<lambda>_.
       ret ()))"

text \<open>The body of the \<^verbatim>\<open>with\<close> block, lines 81 to 126.\<close>

definition in_scratch :: "env \<Rightarrow> args \<Rightarrow> ustr \<Rightarrow> ustr \<Rightarrow> ustr \<Rightarrow> unit act" where
  "in_scratch E a manifest symbol_pattern tmp =
     and_then (symbols_loop E symbol_pattern (splitlines manifest) []) (\<lambda>symbols_to_keep.
     and_then (lift (with_suffix (source a) (u ''.symbols''))) (\<lambda>module.
     and_then (write_module E module symbols_to_keep) (\<lambda>_.
     and_then (print_symbols E symbols_to_keep) (\<lambda>_.
     and_then (unpack E a tmp) (\<lambda>_.
     and_then (prelink E a tmp module) (\<lambda>prelinked_obj.
       repack E a prelinked_obj))))))"

definition nm_cmd :: "env \<Rightarrow> args \<Rightarrow> ustr \<Rightarrow> command" where
  "nm_cmd E a nm_exe = Argv [nm_exe, u ''-gjPUA'', absolute E (source a)]"

text \<open>The script from line 51 on, after the arguments are parsed.\<close>

definition main :: "env \<Rightarrow> args \<Rightarrow> unit act" where
  "main E a =
     and_then (get_nm E a) (\<lambda>nm_exe.
     and_then (get_exe E (u ''ld'')) (\<lambda>ld.
     and_then (subprocess_run E (nm_cmd E a nm_exe) None) (\<lambda>manifest.
     and_then (re_compile E (pattern a)) (\<lambda>symbol_pattern.
       with_tmpdir E (in_scratch E a (fst manifest) symbol_pattern)))))"

section \<open>Reading the sidecar back\<close>

text \<open>
  The script only writes the sidecar. This reader follows the specification's words
  for the round trip: the lines of the file, the header dropped, one entry per line,
  collected into a set.
\<close>

definition spec_read_back :: "ustr \<Rightarrow> ustr set" where
  "spec_read_back txt = set (tl (splitlines txt))"

section \<open>What the external tools are trusted with\<close>

text \<open>
  The shape of a librarian's command whose output is the file \<open>d\<close>, and the frame the
  tools are expected to keep: a process leaves the file \<open>d\<close> as it was unless it is
  such a command. Nothing is assumed of a librarian that is given \<open>d\<close>, whether it
  exits with 0 or not.
\<close>

definition repacks_to :: "env \<Rightarrow> ustr \<Rightarrow> command \<Rightarrow> bool" where
  "repacks_to E d cmd =
     (case cmd of
        Argv argv \<Rightarrow>
          length argv = 5 \<and> argv ! 1 = u ''-static'' \<and> argv ! 2 = u ''-o'' \<and>
          realpath E (argv ! 3) = d
      | Shell c \<Rightarrow> False)"

definition tools_respect :: "env \<Rightarrow> ustr \<Rightarrow> bool" where
  "tools_respect E d \<longleftrightarrow>
     (\<forall>cmd dir f. case run_proc E cmd dir f of
        (NotStarted, f') \<Rightarrow> True
      | (Completed rc out err, f') \<Rightarrow> f' d = f d \<or> repacks_to E d cmd)"

section \<open>Properties of statements\<close>

text \<open>
  Predicates on statements, used to carry a property through the script step by step.
  \<^item> \<open>no_scratch_event m\<close>: \<open>m\<close> only adds events to the trace, none of them the
    making of a scratch directory.
  \<^item> \<open>cleans_scratch m\<close>: \<open>m\<close> only adds events, and every scratch directory it has
    made is gone, with all below it, when \<open>m\<close> ends.
  \<^item> \<open>leaves d m\<close>: \<open>m\<close> leaves path \<open>d\<close> as it found it, however it ends.
  \<^item> \<open>repacked E a d w w' rc err\<close>: the file \<open>d\<close> in \<open>w'\<close> is what a librarian
    command of the script, started on files that still had the \<open>d\<close> of \<open>w\<close> and
    ending with status \<open>rc\<close> and standard error \<open>err\<close>, has left there.
  \<^item> \<open>repack_only E a d m\<close>: when \<open>m\<close> returns, \<open>d\<close> is what the librarian,
    exiting with 0, has left; when \<open>m\<close> raises, \<open>d\<close> is as it was, unless the error
    is the librarian's own failure, and then \<open>d\<close> is what the librarian has left.
\<close>

fun scratch_made :: "event \<Rightarrow> bool" where
  "scratch_made (Mkdtemp t) = True"
| "scratch_made ev = False"

definition no_scratch_event :: "'a act \<Rightarrow> bool" where
  "no_scratch_event m \<longleftrightarrow>
     (\<forall>w r w'. m w = (r, w') \<longrightarrow> (\<exists>evs. trace w' = trace w @ evs \<and> \<not> list_ex scratch_made evs))"

definition cleans_scratch :: "'a act \<Rightarrow> bool" where
  "cleans_scratch m \<longleftrightarrow>
     (\<forall>w r w'. m w = (r, w') \<longrightarrow>
        (\<exists>evs. trace w' = trace w @ evs \<and>
           (\<forall>t p. Mkdtemp t \<in> set evs \<longrightarrow> inside t p \<longrightarrow> fs w' p = None)))"

definition leaves :: "ustr \<Rightarrow> 'a act \<Rightarrow> bool" where
  "leaves d m \<longleftrightarrow> (\<forall>w r w'. m w = (r, w') \<longrightarrow> fs w' d = fs w d)"



section \<open>Sample runs\<close>

text \<open>
  An archive of two objects that define \<^verbatim>\<open>_foo_init\<close> and \<^verbatim>\<open>_bar_helper\<close>, tools
  that behave, and a pattern without metacharacters, which matches at the start of a
  text exactly when the text begins with it.
\<close>

definition sample_listing :: ustr where
  "sample_listing =
     u ''lib.a[foo.o]: _foo_init T 0 0'' @ [10] @ u ''lib.a[bar.o]: _bar_helper T 0 0'' @ [10]"

text \<open>
  The canonical path of these runs: no links, so \<^verbatim>\<open>.\<close>, \<^verbatim>\<open>..\<close> and empty
  components are resolved on the text.
\<close>

fun collapse_parts :: "ustr list \<Rightarrow> ustr list \<Rightarrow> ustr list" where
  "collapse_parts up [] = rev up"
| "collapse_parts up (c # cs) =
     (if c = [] \<or> c = [46] then collapse_parts up cs
      else if c = [46, 46] then collapse_parts (tl up) cs
      else collapse_parts (c # up) cs)"

definition collapse :: "ustr \<Rightarrow> ustr" where
  "collapse p =
     (case collapse_parts [] (str_split 47 p) of
        [] \<Rightarrow> [47]
      | c # cs \<Rightarrow> concat (map (\<lambda>part. 47 # part) (c # cs)))"

text \<open>
  The tools: the symbol lister prints the listing; the archiver and the linker, run in
  the scratch directory of these runs, leave an object there; the librarian writes
  the archive to the file its fourth argument names and ends with the given status.
\<close>

definition sample_tools :: "ustr \<Rightarrow> int \<Rightarrow> command \<Rightarrow> ustr option \<Rightarrow> filesys \<Rightarrow> proc \<times> filesys" where
  "sample_tools listing libtool_status cmd dir f =
     (case cmd of
        Argv argv \<Rightarrow>
          if hd argv = u ''/usr/bin/nm'' then (Completed 0 listing [], f)
          else if hd argv = u ''/usr/bin/ar''
          then (Completed 0 [] [],
                if dir = Some (u ''/tmp/cerbero0'')
                then f(u ''/tmp/cerbero0/foo.o'' \<mapsto> File (u ''FOO'')) else f)
          else if hd argv = u ''/usr/bin/libtool'' \<and> length argv = 5 \<and>
                  argv ! 1 = u ''-static'' \<and> argv ! 2 = u ''-o''
          then (Completed libtool_status [] [], f(collapse (argv ! 3) \<mapsto> File (u ''ARCHIVE'')))
          else (NotStarted, f)
      | Shell c \<Rightarrow>
          (Completed 0 [] [],
           if dir = Some (u ''/tmp/cerbero0'')
           then f(u ''/tmp/cerbero0/lib.prelinked.o'' \<mapsto> File (u ''OBJ'')) else f))"

definition sample_env :: env where
  "sample_env =
     \<lparr> which = (\<lambda>f name. if name \<in> {u ''nm'', u ''ld'', u ''ar'', u ''libtool''}
                          then Some (u ''/usr/bin/'' @ name) else None),
       cwd = u ''/work'',
       realpath = collapse,
       writable = (\<lambda>f q. True),
       run_proc = sample_tools sample_listing 0,
       re_valid = (\<lambda>p. True),
       re_match = (\<lambda>p s. take (length p) s = p),
       tmp_names = [u ''/tmp/cerbero0''],
       set_iter = remdups \<rparr>"

definition sample_args :: args where
  "sample_args = \<lparr> source = u ''lib.a'', dest = u ''out.a'', pattern = Some (u ''_foo''), nm = None \<rparr>"

definition sample_world :: world where
  "sample_world =
     \<lparr> fs = [u ''/work/lib.a'' \<mapsto> File (u ''LIB''), u ''/work/out.a'' \<mapsto> File (u ''OLD'')],
       trace = [] \<rparr>"

text \<open>A listing whose second line has no bracketed object name.\<close>

definition broken_listing :: ustr where
  "broken_listing = u ''lib.a[foo.o]: _foo_init T 0 0'' @ [10] @ u ''lib.a: _bar_helper T 0 0'' @ [10]"

definition broken_env :: env where
  "broken_env = sample_env\<lparr>run_proc := sample_tools broken_listing 0\<rparr>"

text \<open>The same archive listed with other object names.\<close>

definition renamed_listing :: ustr where
  "renamed_listing =
     u ''other.a[x.o]: _foo_init T 0 0'' @ [10] @ u ''other.a[y.o]: _bar_helper T 0 0'' @ [10]"

text \<open>An archiver that exits with status 1, and a destination that is the sidecar's path.\<close>

definition ar_fails_tools :: "command \<Rightarrow> ustr option \<Rightarrow> filesys \<Rightarrow> proc \<times> filesys" where
  "ar_fails_tools cmd dir f =
     (case cmd of
        Argv argv \<Rightarrow>
          if hd argv = u ''/usr/bin/ar'' then (Completed 1 [] (u ''ar: no such archive''), f)
          else sample_tools sample_listing 0 cmd dir f
      | Shell c \<Rightarrow> sample_tools sample_listing 0 cmd dir f)"

definition ar_fails_env :: env where
  "ar_fails_env = sample_env\<lparr>run_proc := ar_fails_tools\<rparr>"

definition alias_args :: args where
  "alias_args = sample_args\<lparr>dest := u ''lib.symbols''\<rparr>"

definition alias_world :: world where
  "alias_world =
     \<lparr> fs = [u ''/work/lib.a'' \<mapsto> File (u ''LIB''), u ''/work/lib.symbols'' \<mapsto> File (u ''OLD'')],
       trace = [] \<rparr>"

text \<open>A librarian that replaces its output and then exits with status 1.\<close>

definition libtool_fails_env :: env where
  "libtool_fails_env = sample_env\<lparr>run_proc := sample_tools sample_listing 1\<rparr>"

text \<open>
  A second process for the same archive: the listing names other objects, and the
  process iterates its sets in another order. The pattern \<^verbatim>\<open>_\<close> keeps both symbols.
\<close>

definition other_env :: env where
  "other_env =
     sample_env\<lparr>run_proc := sample_tools renamed_listing 0, set_iter := (\<lambda>adds. rev (remdups adds))\<rparr>"

definition both_args :: args where
  "both_args = sample_args\<lparr>pattern := Some (u ''_'')\<rparr>"

text \<open>A search path without any tool, and one that lacks the archiver only.\<close>

definition bare_env :: env where
  "bare_env = sample_env\<lparr>which := (\<lambda>f name. None)\<rparr>"

definition no_ar_env :: env where
  "no_ar_env =
     sample_env\<lparr>which := (\<lambda>f name. if name \<in> {u ''nm'', u ''ld''}
                                     then Some (u ''/usr/bin/'' @ name) else None)\<rparr>"

text \<open>The events in which the pattern is tried on a symbol.\<close>

fun symbol_examined :: "event \<Rightarrow> bool" where
  "symbol_examined (ReMatch s) = True"
| "symbol_examined ev = False"

lemmas script_defs =
  main_def and_then_def get_nm_def get_exe_def subprocess_run_def nm_cmd_def
  re_compile_def with_tmpdir_def mkdtemp_def rmtree_def in_scratch_def process_line_def
  write_module_def write_text_def print_symbols_def unpack_def prelink_def repack_def
  repack_cmd_def echo_stderr_def lift_def emit_def ret_def raise_def module_text_def
  splitlines_def str_split_def is_linebreak_def file_pattern_match_def
  with_suffix_def path_name_def path_suffix_def joinpath_def absolute_def is_absolute_def
  locate_def collapse_def
  inside_def u_def Let_def first_field_def symbol_field_def well_formed_def

lemmas sample_defs =
  sample_listing_def sample_tools_def sample_env_def sample_args_def sample_world_def
  broken_listing_def broken_env_def renamed_listing_def
  bare_env_def no_ar_env_def ar_fails_tools_def ar_fails_env_def alias_args_def alias_world_def
  libtool_fails_env_def other_env_def both_args_def

section \<open>The listing loop: one line\<close>

lemma split_from_nonempty: "split_from sep acc s \<noteq> []"
  by (induction s arbitrary: acc) auto

lemma process_line_malformed:
  assumes "file_pattern_match (first_field l) = None"
  shows "process_line E pat l keep w = (Inl TypeError, w)"
proof (cases "str_split 32 l")
  case Nil
  then show ?thesis by (simp add: str_split_def split_from_nonempty)
next
  case (Cons d0 rest)
  with assms show ?thesis
    by (simp add: process_line_def first_field_def raise_def)
qed

lemma process_line_short:
  assumes "file_pattern_match (first_field l) \<noteq> None" and "symbol_field l = None"
  shows "process_line E pat l keep w = (Inl IndexError, w)"
proof (cases "str_split 32 l")
  case Nil
  then show ?thesis by (simp add: str_split_def split_from_nonempty)
next
  case (Cons d0 rest)
  with assms show ?thesis
    by (auto simp: process_line_def first_field_def symbol_field_def raise_def split: list.splits)
qed

lemma process_line_ok:
  assumes "file_pattern_match (first_field l) \<noteq> None" and "symbol_field l = Some s"
  shows "process_line E pat l keep w =
           (Inr (if re_match E pat s then keep @ [s] else keep), w\<lparr>trace := trace w @ [ReMatch s]\<rparr>)"
proof (cases "str_split 32 l")
  case Nil
  then show ?thesis by (simp add: str_split_def split_from_nonempty)
next
  case (Cons d0 rest)
  with assms show ?thesis
    by (auto simp: process_line_def first_field_def symbol_field_def and_then_def emit_def ret_def
        split: list.splits)
qed

section \<open>The listing loop: the whole listing\<close>

lemma symbols_loop_well_formed:
  assumes "\<forall>l \<in> set lines. well_formed l"
  shows "\<exists>keep w'. symbols_loop E pat lines k w = (Inr keep, w') \<and>
           set keep = set k \<union> {s. \<exists>l \<in> set lines. symbol_field l = Some s \<and> re_match E pat s}"
  using assms
proof (induction lines arbitrary: k w)
  case Nil
  then show ?case by (simp add: ret_def)
next
  case (Cons l lines)
  from Cons.prems have wf: "file_pattern_match (first_field l) \<noteq> None"
    and "symbol_field l \<noteq> None" and rest: "\<forall>l \<in> set lines. well_formed l"
    by (simp_all add: well_formed_def)
  then obtain s where s: "symbol_field l = Some s" by blast
  let ?k = "if re_match E pat s then k @ [s] else k"
  let ?w = "w\<lparr>trace := trace w @ [ReMatch s]\<rparr>"
  from Cons.IH [OF rest, of ?k ?w] obtain keep w' where
    run: "symbols_loop E pat lines ?k ?w = (Inr keep, w')" and
    keep: "set keep = set ?k \<union> {s. \<exists>l \<in> set lines. symbol_field l = Some s \<and> re_match E pat s}"
    by blast
  have "symbols_loop E pat (l # lines) k w = (Inr keep, w')"
    using run by (simp add: and_then_def process_line_ok [OF wf s])
  moreover have "set keep = set k \<union> {s. \<exists>l \<in> set (l # lines). symbol_field l = Some s \<and> re_match E pat s}"
    using keep s by auto
  ultimately show ?case by blast
qed

lemma symbols_loop_malformed:
  assumes "l \<in> set lines" and "file_pattern_match (first_field l) = None"
  shows "\<exists>e w'. symbols_loop E pat lines k w = (Inl e, w')"
  using assms
proof (induction lines arbitrary: k w)
  case Nil
  then show ?case by simp
next
  case (Cons x lines)
  show ?case
  proof (cases "process_line E pat x k w")
    case (Pair r w1)
    show ?thesis
    proof (cases r)
      case (Inl e)
      with Pair show ?thesis by (simp add: and_then_def)
    next
      case (Inr k1)
      with Pair have "x \<noteq> l"
        using process_line_malformed [OF Cons.prems(2), of E pat k w] by auto
      with Cons.prems have "l \<in> set lines" by simp
      from Cons.IH [OF this Cons.prems(2), of k1 w1] Pair Inr show ?thesis
        by (simp add: and_then_def)
    qed
  qed
qed

lemma process_line_same_symbol:
  assumes "symbol_field x = symbol_field y"
    and "file_pattern_match (first_field x) \<noteq> None" and "file_pattern_match (first_field y) \<noteq> None"
  shows "process_line E pat x k w = process_line E pat y k w"
proof (cases "symbol_field x")
  case None
  with assms have "symbol_field y = None" by simp
  from process_line_short [OF assms(2) None] process_line_short [OF assms(3) this]
  show ?thesis by simp
next
  case (Some s)
  with assms have "symbol_field y = Some s" by simp
  from process_line_ok [OF assms(2) Some] process_line_ok [OF assms(3) this]
  show ?thesis by simp
qed

lemma symbols_loop_same_symbols:
  assumes "list_all2 (\<lambda>x y. symbol_field x = symbol_field y) xs ys"
    and "\<forall>l \<in> set xs \<union> set ys. file_pattern_match (first_field l) \<noteq> None"
  shows "symbols_loop E pat xs k w = symbols_loop E pat ys k w"
  using assms
proof (induction xs ys arbitrary: k w rule: list_all2_induct)
  case Nil
  then show ?case by simp
next
  case (Cons x xs y ys)
  then have "process_line E pat x k w = process_line E pat y k w"
    by (intro process_line_same_symbol) simp_all
  moreover have "symbols_loop E pat xs = symbols_loop E pat ys"
    using Cons by (intro ext) simp
  ultimately show ?case by (simp add: and_then_def)
qed

section \<open>From the loop to the run\<close>

lemma get_exe_world:
  assumes "get_exe E name w = (r, w')"
  shows "w' = w\<lparr>trace := trace w @ [Which name]\<rparr>"
  using assms
  by (auto simp: get_exe_def and_then_def emit_def raise_def ret_def split: option.splits if_splits)

lemma in_scratch_malformed:
  assumes "l \<in> set (splitlines manifest)" and "file_pattern_match (first_field l) = None"
  shows "\<exists>e w'. in_scratch E a manifest p t w = (Inl e, w')"
proof -
  from symbols_loop_malformed [OF assms] obtain e w'
    where "symbols_loop E p (splitlines manifest) [] w = (Inl e, w')" by blast
  then show ?thesis by (simp add: in_scratch_def and_then_def)
qed

lemma with_tmpdir_fails:
  assumes "\<And>t w. \<exists>e w'. body t w = (Inl e, w')"
  shows "\<exists>e w'. with_tmpdir E body w = (Inl e, w')"
proof (cases "mkdtemp E w")
  case (Pair r w1)
  show ?thesis
  proof (cases r)
    case (Inl e)
    with Pair show ?thesis by (simp add: with_tmpdir_def)
  next
    case (Inr t)
    from assms [of t w1] obtain e w2 where "body t w1 = (Inl e, w2)" by blast
    with Pair Inr show ?thesis by (simp add: with_tmpdir_def)
  qed
qed

lemma main_malformed:
  assumes nm: "get_nm E a w = (Inr nm_exe, w1)"
    and run: "run_proc E (nm_cmd E a nm_exe) None (fs w1) = (Completed rc manifest err, f)"
    and l: "l \<in> set (splitlines manifest)" "file_pattern_match (first_field l) = None"
  shows "\<exists>e w'. main E a w = (Inl e, w')"
proof -
  have tmp: "\<exists>e w'. with_tmpdir E (in_scratch E a manifest p) w = (Inl e, w')" for p w
    by (rule with_tmpdir_fails) (rule in_scratch_malformed [OF l])
  obtain r2 w2 where ld: "get_exe E (u ''ld'') w1 = (r2, w2)" by (cases "get_exe E (u ''ld'') w1")
  from get_exe_world [OF ld] have fs2: "fs w2 = fs w1" by simp
  show ?thesis
  proof (cases r2)
    case (Inl e)
    with nm ld show ?thesis by (simp add: main_def and_then_def)
  next
    case (Inr ld_exe)
    show ?thesis
    proof (cases "rc = 0")
      case False
      with nm ld Inr run fs2 show ?thesis
        by (simp add: main_def and_then_def subprocess_run_def)
    next
      case True
      let ?w3 = "w2\<lparr>trace := trace w2 @ [Exec (nm_cmd E a nm_exe) None], fs := f\<rparr>"
      have sub: "subprocess_run E (nm_cmd E a nm_exe) None w2 = (Inr (manifest, err), ?w3)"
        using True run fs2 by (simp add: subprocess_run_def)
      obtain r4 w4 where rc: "re_compile E (pattern a) ?w3 = (r4, w4)"
        by (cases "re_compile E (pattern a) ?w3")
      show ?thesis
      proof (cases r4)
        case (Inl e)
        with nm ld Inr sub rc show ?thesis by (simp add: main_def and_then_def)
      next
        case (Inr p)
        from tmp [of p w4] obtain e w' where "with_tmpdir E (in_scratch E a manifest p) w4 = (Inl e, w')"
          by blast
        with nm ld \<open>r2 = Inr ld_exe\<close> sub rc Inr show ?thesis by (simp add: main_def and_then_def)
      qed
    qed
  qed
qed

section \<open>Claims about the filter step\<close>

text \<open>
  Claim C1. For a listing of well-formed lines (the first field matches the file
  pattern, and there is a second field) and any pattern, the loop ends without an
  error, and the set it has built is exactly the set of second fields that the pattern
  matches at their start: every such symbol is in it and nothing else is.
\<close>

theorem preserve_set_exact:
  assumes "\<forall>l \<in> set lines. well_formed l"
  shows "\<exists>keep w'. symbols_loop E pat lines [] w = (Inr keep, w') \<and>
           set keep = {s. \<exists>l \<in> set lines. symbol_field l = Some s \<and> re_match E pat s}"
  using symbols_loop_well_formed [OF assms, of E pat "[]" w] by simp

theorem preserve_set_exact_witness:
  "list_all well_formed (splitlines sample_listing) \<and>
   (\<exists>keep w'. symbols_loop sample_env (u ''_foo'') (splitlines sample_listing) [] sample_world = (Inr keep, w')
      \<and> set keep = {u ''_foo_init''})"
proof -
  have wf: "\<forall>l \<in> set (splitlines sample_listing). well_formed l"
    by (simp add: script_defs sample_defs)
  have sel: "{s. \<exists>l \<in> set (splitlines sample_listing). symbol_field l = Some s \<and> re_match sample_env (u ''_foo'') s}
               = {u ''_foo_init''}"
    by (auto simp: script_defs sample_defs)
  from preserve_set_exact [OF wf, of sample_env "u ''_foo''" sample_world] wf sel
  show ?thesis by (simp add: list_all_iff)
qed

text \<open>
  Claim C4. A line whose first field does not match the file pattern raises TypeError
  when the loop reaches it; a listing that holds such a line makes the loop end in an
  error, never in a set; and a run whose symbol lister printed such a line ends in an
  error.
\<close>

theorem malformed_line_aborts:
  assumes "file_pattern_match (first_field l) = None"
  shows "process_line E pat l keep w = (Inl TypeError, w) \<and>
         (l \<in> set lines \<longrightarrow> (\<exists>e w'. symbols_loop E pat lines keep w = (Inl e, w'))) \<and>
         (get_nm E a w = (Inr nm_exe, w1) \<and>
          run_proc E (nm_cmd E a nm_exe) None (fs w1) = (Completed rc manifest err, f) \<and>
          l \<in> set (splitlines manifest) \<longrightarrow> (\<exists>e w'. main E a w = (Inl e, w')))"
  using process_line_malformed [OF assms] symbols_loop_malformed [OF _ assms]
    main_malformed [OF _ _ _ assms]
  by blast

theorem malformed_line_aborts_witness:
  "file_pattern_match (first_field (u ''lib.a: _bar_helper T 0 0'')) = None \<and>
   u ''lib.a: _bar_helper T 0 0'' \<in> set (splitlines broken_listing) \<and>
   get_nm broken_env sample_args sample_world = (Inr (u ''/usr/bin/nm''), sample_world\<lparr>trace := [Which (u ''nm'')]\<rparr>) \<and>
   run_proc broken_env (nm_cmd broken_env sample_args (u ''/usr/bin/nm'')) None (fs sample_world)
     = (Completed 0 broken_listing [], fs sample_world) \<and>
   process_line broken_env (u ''_foo'') (u ''lib.a: _bar_helper T 0 0'') [] sample_world = (Inl TypeError, sample_world) \<and>
   (\<exists>e w'. symbols_loop broken_env (u ''_foo'') (splitlines broken_listing) [] sample_world = (Inl e, w')) \<and>
   (\<exists>e w'. main broken_env sample_args sample_world = (Inl e, w'))"
proof -
  have bad: "file_pattern_match (first_field (u ''lib.a: _bar_helper T 0 0'')) = None"
    by (simp add: script_defs)
  have mem: "u ''lib.a: _bar_helper T 0 0'' \<in> set (splitlines broken_listing)"
    by (simp add: script_defs sample_defs)
  have nm: "get_nm broken_env sample_args sample_world
              = (Inr (u ''/usr/bin/nm''), sample_world\<lparr>trace := [Which (u ''nm'')]\<rparr>)"
    by (simp add: script_defs sample_defs)
  have run: "run_proc broken_env (nm_cmd broken_env sample_args (u ''/usr/bin/nm'')) None
               (fs (sample_world\<lparr>trace := [Which (u ''nm'')]\<rparr>))
             = (Completed 0 broken_listing [], fs sample_world)"
    by (simp add: script_defs sample_defs)
  from malformed_line_aborts [OF bad, of broken_env "u ''_foo''" "[]" sample_world
      "splitlines broken_listing" sample_args "u ''/usr/bin/nm''"
      "sample_world\<lparr>trace := [Which (u ''nm'')]\<rparr>" 0 broken_listing "[]" "fs sample_world"]
    bad mem nm run
  show ?thesis by simp
qed

section \<open>Claims about the tools and the pattern\<close>

text \<open>
  Claim C7. Without \<^verbatim>\<open>--nm\<close> and with no \<^verbatim>\<open>nm\<close> on the search path, the run
  ends at its first statement with the RuntimeError of \<^verbatim>\<open>get_nm\<close>: the files are
  as they were, and the search-path look-up is all that happened, so no process was
  started, no scratch directory made and no sidecar written.
\<close>

theorem missing_nm_fails_first:
  assumes "nm a = None" and "which E (fs w) (u ''nm'') = None"
  shows "main E a w =
           (Inl (RuntimeError (u ''A valid llvm-nm executable is needed'')),
            w\<lparr>trace := trace w @ [Which (u ''nm'')]\<rparr>)"
  using assms by (simp add: main_def and_then_def get_nm_def emit_def raise_def)

theorem missing_nm_fails_first_witness:
  "nm sample_args = None \<and> which bare_env (fs sample_world) (u ''nm'') = None \<and>
   main bare_env sample_args sample_world =
     (Inl (RuntimeError (u ''A valid llvm-nm executable is needed'')),
      sample_world\<lparr>trace := trace sample_world @ [Which (u ''nm'')]\<rparr>)"
proof -
  have a: "nm sample_args = None" by (simp add: sample_args_def)
  have b: "which bare_env (fs sample_world) (u ''nm'') = None"
    by (simp add: bare_env_def)
  from missing_nm_fails_first [OF a b] a b show ?thesis by simp
qed

text \<open>
  Claim C10. With \<^verbatim>\<open>--nm\<close> given, \<^verbatim>\<open>get_nm\<close> returns that path and leaves the
  world alone: it looks at neither the search path nor the files. When the linker is
  found and the path cannot be started, the run fails at the symbol lister's start
  with OSError, not with the RuntimeError of a missing tool.
\<close>

theorem nm_override_unchecked:
  assumes "nm a = Some exe"
  shows "get_nm E a w = (Inr exe, w) \<and>
         (which E (fs w) (u ''ld'') = Some ld \<and> ld \<noteq> [] \<and>
          fst (run_proc E (nm_cmd E a exe) None (fs w)) = NotStarted \<longrightarrow>
            main E a w =
              (Inl OSError, w\<lparr>trace := trace w @ [Which (u ''ld''), Exec (nm_cmd E a exe) None]\<rparr>))"
proof -
  have g: "get_nm E a w = (Inr exe, w)"
    using assms by (simp add: get_nm_def ret_def)
  moreover have "main E a w =
      (Inl OSError, w\<lparr>trace := trace w @ [Which (u ''ld''), Exec (nm_cmd E a exe) None]\<rparr>)"
    if "which E (fs w) (u ''ld'') = Some ld" "ld \<noteq> []"
      "fst (run_proc E (nm_cmd E a exe) None (fs w)) = NotStarted"
    using that g
    by (cases "run_proc E (nm_cmd E a exe) None (fs w)")
      (simp add: main_def and_then_def get_exe_def emit_def ret_def subprocess_run_def)
  ultimately show ?thesis by blast
qed

theorem nm_override_unchecked_witness:
  "nm (sample_args\<lparr>nm := Some (u ''/nowhere/nm'')\<rparr>) = Some (u ''/nowhere/nm'') \<and>
   fs sample_world (u ''/nowhere/nm'') = None \<and>
   which sample_env (fs sample_world) (u ''ld'') = Some (u ''/usr/bin/ld'') \<and>
   fst (run_proc sample_env (nm_cmd sample_env (sample_args\<lparr>nm := Some (u ''/nowhere/nm'')\<rparr>) (u ''/nowhere/nm''))
          None (fs sample_world)) = NotStarted \<and>
   get_nm sample_env (sample_args\<lparr>nm := Some (u ''/nowhere/nm'')\<rparr>) sample_world
     = (Inr (u ''/nowhere/nm''), sample_world) \<and>
   main sample_env (sample_args\<lparr>nm := Some (u ''/nowhere/nm'')\<rparr>) sample_world
     = (Inl OSError,
        sample_world\<lparr>trace := trace sample_world @
          [Which (u ''ld''),
           Exec (nm_cmd sample_env (sample_args\<lparr>nm := Some (u ''/nowhere/nm'')\<rparr>) (u ''/nowhere/nm'')) None]\<rparr>)"
proof -
  let ?a = "sample_args\<lparr>nm := Some (u ''/nowhere/nm'')\<rparr>"
  have a: "nm ?a = Some (u ''/nowhere/nm'')" by simp
  have b: "fs sample_world (u ''/nowhere/nm'') = None"
    by (simp add: sample_world_def u_def)
  have c: "which sample_env (fs sample_world) (u ''ld'') = Some (u ''/usr/bin/ld'')"
    by (simp add: sample_env_def u_def)
  have d: "u ''/usr/bin/ld'' \<noteq> []" by (simp add: u_def)
  have e: "fst (run_proc sample_env (nm_cmd sample_env ?a (u ''/nowhere/nm'')) None (fs sample_world)) = NotStarted"
    by (simp add: sample_env_def sample_tools_def nm_cmd_def u_def)
  from nm_override_unchecked [OF a, of sample_env sample_world "u ''/usr/bin/ld''"] a b c d e
  show ?thesis by simp
qed

lemma get_nm_examined:
  assumes "get_nm E a w = (r, w')"
  shows "fs w' = fs w \<and> filter symbol_examined (trace w') = filter symbol_examined (trace w)"
  using assms
  by (auto simp: get_nm_def and_then_def emit_def raise_def ret_def split: option.splits if_splits)

lemma subprocess_run_trace:
  assumes "subprocess_run E cmd dir w = (r, w')"
  shows "trace w' = trace w @ [Exec cmd dir]"
  using assms
  by (auto simp: subprocess_run_def Let_def split: prod.splits proc.splits if_splits)

lemma null_pattern_no_symbol:
  assumes "pattern a = None"
  shows "\<exists>e w'. main E a w = (Inl e, w') \<and>
           filter symbol_examined (trace w') = filter symbol_examined (trace w)"
proof -
  obtain r1 w1 where s1: "get_nm E a w = (r1, w1)" by (cases "get_nm E a w")
  note t1 = get_nm_examined [OF s1]
  show ?thesis
  proof (cases r1)
    case (Inl e)
    with s1 t1 show ?thesis by (simp add: main_def and_then_def)
  next
    case r1: (Inr nm_exe)
    obtain r2 w2 where s2: "get_exe E (u ''ld'') w1 = (r2, w2)" by (cases "get_exe E (u ''ld'') w1")
    from get_exe_world [OF s2] t1
    have t2: "filter symbol_examined (trace w2) = filter symbol_examined (trace w)" by simp
    show ?thesis
    proof (cases r2)
      case (Inl e)
      with s1 r1 s2 t2 show ?thesis by (simp add: main_def and_then_def)
    next
      case r2: (Inr ld)
      obtain r3 w3 where s3: "subprocess_run E (nm_cmd E a nm_exe) None w2 = (r3, w3)"
        by (cases "subprocess_run E (nm_cmd E a nm_exe) None w2")
      from subprocess_run_trace [OF s3] t2
      have t3: "filter symbol_examined (trace w3) = filter symbol_examined (trace w)" by simp
      show ?thesis
      proof (cases r3)
        case (Inl e)
        with s1 r1 s2 r2 s3 t3 show ?thesis by (simp add: main_def and_then_def)
      next
        case (Inr manifest)
        with s1 r1 s2 r2 s3 t3 assms show ?thesis
          by (simp add: main_def and_then_def re_compile_def emit_def raise_def)
      qed
    qed
  qed
qed

lemma null_pattern_type_error:
  assumes "pattern a = None"
    and "get_nm E a w = (Inr nm_exe, w1)"
    and "which E (fs w1) (u ''ld'') = Some ld" and "ld \<noteq> []"
    and "run_proc E (nm_cmd E a nm_exe) None (fs w1) = (Completed 0 manifest err, f)"
  shows "main E a w =
           (Inl TypeError,
            w1\<lparr>trace := trace w1 @ [Which (u ''ld''), Exec (nm_cmd E a nm_exe) None, ReCompile None],
               fs := f\<rparr>)"
  using assms
  by (simp add: main_def and_then_def get_exe_def emit_def ret_def raise_def subprocess_run_def
      re_compile_def)

text \<open>
  Claim C8, as the script has it. Without \<^verbatim>\<open>--pattern\<close> the run always fails and
  never tries the pattern on a symbol; when the tools are found and the symbol lister
  exits with 0, the error is the TypeError of \<^verbatim>\<open>re.compile(None)\<close>, raised right
  after the listing, before the scratch directory is made and before the loop starts.
\<close>

theorem null_pattern_fails_at_compile:
  assumes "pattern a = None"
  shows "(\<exists>e w'. main E a w = (Inl e, w') \<and>
            filter symbol_examined (trace w') = filter symbol_examined (trace w)) \<and>
         (get_nm E a w = (Inr nm_exe, w1) \<and> which E (fs w1) (u ''ld'') = Some ld \<and> ld \<noteq> [] \<and>
          run_proc E (nm_cmd E a nm_exe) None (fs w1) = (Completed 0 manifest err, f) \<longrightarrow>
            main E a w =
              (Inl TypeError,
               w1\<lparr>trace := trace w1 @ [Which (u ''ld''), Exec (nm_cmd E a nm_exe) None, ReCompile None],
                  fs := f\<rparr>))"
  using null_pattern_no_symbol [OF assms] null_pattern_type_error [OF assms] by blast

theorem null_pattern_fails_at_compile_witness:
  "pattern (sample_args\<lparr>pattern := None\<rparr>) = None \<and>
   get_nm sample_env (sample_args\<lparr>pattern := None\<rparr>) sample_world
     = (Inr (u ''/usr/bin/nm''), sample_world\<lparr>trace := [Which (u ''nm'')]\<rparr>) \<and>
   which sample_env (fs sample_world) (u ''ld'') = Some (u ''/usr/bin/ld'') \<and>
   run_proc sample_env (nm_cmd sample_env (sample_args\<lparr>pattern := None\<rparr>) (u ''/usr/bin/nm'')) None
       (fs sample_world) = (Completed 0 sample_listing [], fs sample_world) \<and>
   (\<exists>e w'. main sample_env (sample_args\<lparr>pattern := None\<rparr>) sample_world = (Inl e, w') \<and>
      filter symbol_examined (trace w') = filter symbol_examined (trace sample_world)) \<and>
   main sample_env (sample_args\<lparr>pattern := None\<rparr>) sample_world =
     (Inl TypeError,
      sample_world\<lparr>trace :=
        [Which (u ''nm''), Which (u ''ld''),
         Exec (nm_cmd sample_env (sample_args\<lparr>pattern := None\<rparr>) (u ''/usr/bin/nm'')) None,
         ReCompile None]\<rparr>)"
proof -
  let ?a = "sample_args\<lparr>pattern := None\<rparr>"
  let ?w1 = "sample_world\<lparr>trace := [Which (u ''nm'')]\<rparr>"
  have tr: "trace sample_world = []" by (simp add: sample_world_def)
  have a: "pattern ?a = None" by simp
  have b: "get_nm sample_env ?a sample_world = (Inr (u ''/usr/bin/nm''), ?w1)"
    by (simp add: script_defs sample_defs)
  have c: "which sample_env (fs ?w1) (u ''ld'') = Some (u ''/usr/bin/ld'')"
    by (simp add: sample_env_def u_def)
  have d: "u ''/usr/bin/ld'' \<noteq> []" by (simp add: u_def)
  have e: "run_proc sample_env (nm_cmd sample_env ?a (u ''/usr/bin/nm'')) None (fs ?w1)
             = (Completed 0 sample_listing [], fs sample_world)"
    by (simp add: sample_env_def sample_tools_def nm_cmd_def u_def)
  have w: "?w1\<lparr>trace := trace ?w1 @ [Which (u ''ld''), Exec (nm_cmd sample_env ?a (u ''/usr/bin/nm'')) None,
                ReCompile None], fs := fs sample_world\<rparr>
           = sample_world\<lparr>trace := [Which (u ''nm''), Which (u ''ld''),
                Exec (nm_cmd sample_env ?a (u ''/usr/bin/nm'')) None, ReCompile None]\<rparr>"
    by simp
  from null_pattern_fails_at_compile [OF a, of sample_env sample_world "u ''/usr/bin/nm''" ?w1
      "u ''/usr/bin/ld''" sample_listing "[]" "fs sample_world"] a b c d e w
  show ?thesis by (simp add: tr)
qed

text \<open>
  Claim C8 as stated (the error comes with the first match attempt) fails on the
  sample run: the listing holds two symbols, the run ends in TypeError, and no symbol
  has been examined.
\<close>

theorem null_pattern_counterexample:
  "main sample_env (sample_args\<lparr>pattern := None\<rparr>) sample_world =
     (Inl TypeError,
      sample_world\<lparr>trace :=
        [Which (u ''nm''), Which (u ''ld''),
         Exec (Argv [u ''/usr/bin/nm'', u ''-gjPUA'', u ''/work/lib.a'']) None,
         ReCompile None]\<rparr>) \<and>
   filter symbol_examined (trace (snd (main sample_env (sample_args\<lparr>pattern := None\<rparr>) sample_world))) = []"
  by (simp add: script_defs sample_defs)

text \<open>
  Claim C3 on a search path that has \<^verbatim>\<open>nm\<close> and \<^verbatim>\<open>ld\<close> but no \<^verbatim>\<open>ar\<close>: the
  missing archiver is reported only when the unpack step looks it up. By then the
  symbol lister has run, the scratch directory has been made and the sidecar, absent
  before the run, has been written and stays.
\<close>

theorem archiver_looked_up_late:
  "fst (main no_ar_env sample_args sample_world)
     = Inl (RuntimeError (u ''A valid ar executable is needed'')) \<and>
   trace (snd (main no_ar_env sample_args sample_world)) =
     [Which (u ''nm''), Which (u ''ld''),
      Exec (Argv [u ''/usr/bin/nm'', u ''-gjPUA'', u ''/work/lib.a'']) None,
      ReCompile (Some (u ''_foo'')),
      Mkdtemp (u ''/tmp/cerbero0''),
      ReMatch (u ''_foo_init''), ReMatch (u ''_bar_helper''),
      WriteText (u ''/work/lib.symbols'') (u ''# Stripped by Cerbero'' @ [10] @ u ''_foo_init'' @ [10]),
      Print (u ''Symbols to preserve:''), Print (9 # u ''_foo_init''),
      Print (u ''Unpacking /work/lib.a with ar''),
      Which (u ''ar''),
      Rmtree (u ''/tmp/cerbero0'')] \<and>
   fs sample_world (u ''/work/lib.symbols'') = None \<and>
   fs (snd (main no_ar_env sample_args sample_world)) (u ''/work/lib.symbols'')
     = Some (File (u ''# Stripped by Cerbero'' @ [10] @ u ''_foo_init'' @ [10]))"
  by (simp add: script_defs sample_defs)

section \<open>The trace of every step\<close>

lemma no_scratch_eventI:
  assumes "\<And>w r w'. m w = (r, w') \<Longrightarrow> \<exists>evs. trace w' = trace w @ evs \<and> \<not> list_ex scratch_made evs"
  shows "no_scratch_event m"
  using assms unfolding no_scratch_event_def by blast

lemma no_scratch_ret: "no_scratch_event (ret x)"
  by (simp add: no_scratch_event_def ret_def)

lemma no_scratch_raise: "no_scratch_event (raise e)"
  by (simp add: no_scratch_event_def raise_def)

lemma no_scratch_lift: "no_scratch_event (lift r)"
  by (simp add: no_scratch_event_def lift_def)

lemma no_scratch_emit: "\<not> scratch_made ev \<Longrightarrow> no_scratch_event (emit ev)"
  by (auto simp: no_scratch_event_def emit_def)

lemma no_scratch_and_then:
  assumes m: "no_scratch_event m" and f: "\<And>x. no_scratch_event (f x)"
  shows "no_scratch_event (and_then m f)"
proof (rule no_scratch_eventI)
  fix w r w'
  assume run: "and_then m f w = (r, w')"
  obtain r1 w1 where s1: "m w = (r1, w1)" by (cases "m w")
  from m s1 obtain evs1 where e1: "trace w1 = trace w @ evs1" "\<not> list_ex scratch_made evs1"
    unfolding no_scratch_event_def by blast
  show "\<exists>evs. trace w' = trace w @ evs \<and> \<not> list_ex scratch_made evs"
  proof (cases r1)
    case (Inl e)
    with run s1 have "w' = w1" by (simp add: and_then_def)
    with e1 show ?thesis by blast
  next
    case (Inr x)
    with run s1 have "f x w1 = (r, w')" by (simp add: and_then_def)
    with f [of x] obtain evs2 where "trace w' = trace w1 @ evs2" "\<not> list_ex scratch_made evs2"
      unfolding no_scratch_event_def by blast
    with e1 have "trace w' = trace w @ (evs1 @ evs2) \<and> \<not> list_ex scratch_made (evs1 @ evs2)"
      by simp
    then show ?thesis by blast
  qed
qed

lemma no_scratch_subprocess_run: "no_scratch_event (subprocess_run E cmd dir)"
  by (rule no_scratch_eventI) (auto dest: subprocess_run_trace)

lemma no_scratch_get_exe: "no_scratch_event (get_exe E name)"
  by (rule no_scratch_eventI) (auto dest: get_exe_world)

lemma no_scratch_get_nm: "no_scratch_event (get_nm E a)"
  by (rule no_scratch_eventI)
    (auto simp: get_nm_def and_then_def emit_def raise_def ret_def split: option.splits if_splits)

lemma no_scratch_re_compile: "no_scratch_event (re_compile E pat)"
  unfolding re_compile_def
  by (intro no_scratch_and_then no_scratch_emit)
    (simp_all add: no_scratch_raise no_scratch_ret split: option.splits)

lemma no_scratch_write_text: "no_scratch_event (write_text E p txt)"
  by (rule no_scratch_eventI) (auto simp: write_text_def Let_def split: if_splits)

lemma no_scratch_echo_stderr:
  assumes "no_scratch_event m"
  shows "no_scratch_event (echo_stderr m)"
proof (rule no_scratch_eventI)
  fix w r w'
  assume run: "echo_stderr m w = (r, w')"
  obtain r1 w1 where s1: "m w = (r1, w1)" by (cases "m w")
  from assms s1 obtain evs1 where e1: "trace w1 = trace w @ evs1" "\<not> list_ex scratch_made evs1"
    unfolding no_scratch_event_def by blast
  from run s1 have "w' = w1 \<or> (\<exists>err. w' = w1\<lparr>trace := trace w1 @ [PrintErr err]\<rparr>)"
    by (auto simp: echo_stderr_def split: sum.splits error.splits)
  then show "\<exists>evs. trace w' = trace w @ evs \<and> \<not> list_ex scratch_made evs"
  proof
    assume "w' = w1"
    with e1 show ?thesis by blast
  next
    assume "\<exists>err. w' = w1\<lparr>trace := trace w1 @ [PrintErr err]\<rparr>"
    then obtain err where "w' = w1\<lparr>trace := trace w1 @ [PrintErr err]\<rparr>" by blast
    with e1 have "trace w' = trace w @ (evs1 @ [PrintErr err]) \<and>
        \<not> list_ex scratch_made (evs1 @ [PrintErr err])" by simp
    then show ?thesis by blast
  qed
qed

lemma no_scratch_process_line: "no_scratch_event (process_line E pat l keep)"
  unfolding process_line_def
  by (auto split: list.splits option.splits
      intro!: no_scratch_and_then no_scratch_emit no_scratch_raise no_scratch_ret)

lemma no_scratch_symbols_loop: "no_scratch_event (symbols_loop E pat lines keep)"
proof (induction lines arbitrary: keep)
  case Nil
  show ?case by (simp add: no_scratch_ret)
next
  case (Cons l lines)
  show ?case
    by (simp only: symbols_loop.simps) (intro no_scratch_and_then no_scratch_process_line Cons.IH)
qed

lemma no_scratch_print_each: "no_scratch_event (print_each symbols)"
  by (induction symbols) (auto intro!: no_scratch_and_then no_scratch_emit no_scratch_ret)

lemma no_scratch_in_scratch: "no_scratch_event (in_scratch E a manifest pat tmp)"
  unfolding in_scratch_def write_module_def print_symbols_def unpack_def prelink_def repack_def
  by (intro no_scratch_and_then no_scratch_symbols_loop no_scratch_lift no_scratch_write_text
      no_scratch_emit no_scratch_print_each no_scratch_get_exe no_scratch_subprocess_run
      no_scratch_ret no_scratch_echo_stderr) simp_all

section \<open>The scratch directory\<close>

lemma scratch_made_mem: "Mkdtemp t \<in> set evs \<Longrightarrow> list_ex scratch_made evs"
  by (force simp: list_ex_iff)

lemma mkdtemp_cases:
  assumes "mkdtemp E w = (r, w1)"
  shows "(\<exists>e. r = Inl e \<and> w1 = w) \<or>
         (\<exists>t. r = Inr t \<and> t \<in> set (tmp_names E) \<and>
              w1 = w\<lparr>fs := (fs w)(realpath E t \<mapsto> Dir), trace := trace w @ [Mkdtemp (realpath E t)]\<rparr>)"
proof (cases "filter (\<lambda>t. fs w (realpath E t) = None) (tmp_names E)")
  case Nil
  with assms show ?thesis by (auto simp: mkdtemp_def)
next
  case (Cons t ts)
  then have "t \<in> set (filter (\<lambda>t. fs w (realpath E t) = None) (tmp_names E))" by simp
  then have "t \<in> set (tmp_names E)" by simp
  with assms Cons show ?thesis by (auto simp: mkdtemp_def split: if_splits)
qed

lemma cleans_scratchI:
  assumes "\<And>w r w'. m w = (r, w') \<Longrightarrow>
     \<exists>evs. trace w' = trace w @ evs \<and> (\<forall>t p. Mkdtemp t \<in> set evs \<longrightarrow> inside t p \<longrightarrow> fs w' p = None)"
  shows "cleans_scratch m"
  using assms unfolding cleans_scratch_def by blast

lemma cleans_and_then:
  assumes m: "no_scratch_event m" and f: "\<And>x. cleans_scratch (f x)"
  shows "cleans_scratch (and_then m f)"
proof (rule cleans_scratchI)
  fix w r w'
  assume run: "and_then m f w = (r, w')"
  obtain r1 w1 where s1: "m w = (r1, w1)" by (cases "m w")
  from m s1 obtain evs1 where e1: "trace w1 = trace w @ evs1" "\<not> list_ex scratch_made evs1"
    unfolding no_scratch_event_def by blast
  show "\<exists>evs. trace w' = trace w @ evs \<and> (\<forall>t p. Mkdtemp t \<in> set evs \<longrightarrow> inside t p \<longrightarrow> fs w' p = None)"
  proof (cases r1)
    case (Inl e)
    with run s1 have "w' = w1" by (simp add: and_then_def)
    with e1 have "trace w' = trace w @ evs1 \<and>
        (\<forall>t p. Mkdtemp t \<in> set evs1 \<longrightarrow> inside t p \<longrightarrow> fs w' p = None)"
      using scratch_made_mem by blast
    then show ?thesis by blast
  next
    case (Inr x)
    with run s1 have "f x w1 = (r, w')" by (simp add: and_then_def)
    with f [of x] obtain evs2 where e2: "trace w' = trace w1 @ evs2"
      "\<forall>t p. Mkdtemp t \<in> set evs2 \<longrightarrow> inside t p \<longrightarrow> fs w' p = None"
      unfolding cleans_scratch_def by blast
    have "Mkdtemp t \<in> set (evs1 @ evs2) \<Longrightarrow> Mkdtemp t \<in> set evs2" for t
      using e1(2) scratch_made_mem by auto
    with e2 have "\<forall>t p. Mkdtemp t \<in> set (evs1 @ evs2) \<longrightarrow> inside t p \<longrightarrow> fs w' p = None"
      by blast
    moreover from e1 e2 have "trace w' = trace w @ (evs1 @ evs2)" by simp
    ultimately have "trace w' = trace w @ (evs1 @ evs2) \<and>
        (\<forall>t p. Mkdtemp t \<in> set (evs1 @ evs2) \<longrightarrow> inside t p \<longrightarrow> fs w' p = None)"
      by blast
    then show ?thesis by blast
  qed
qed

lemma cleans_with_tmpdir:
  assumes body: "\<And>t. no_scratch_event (body t)"
  shows "cleans_scratch (with_tmpdir E body)"
proof (rule cleans_scratchI)
  fix w r w'
  assume run: "with_tmpdir E body w = (r, w')"
  obtain r1 w1 where s1: "mkdtemp E w = (r1, w1)" by (cases "mkdtemp E w")
  from mkdtemp_cases [OF s1]
  show "\<exists>evs. trace w' = trace w @ evs \<and> (\<forall>t p. Mkdtemp t \<in> set evs \<longrightarrow> inside t p \<longrightarrow> fs w' p = None)"
  proof (elim disjE exE conjE)
    fix e assume "r1 = Inl e" "w1 = w"
    with run s1 have "w' = w" by (simp add: with_tmpdir_def)
    then have "trace w' = trace w @ [] \<and>
        (\<forall>t p. Mkdtemp t \<in> set [] \<longrightarrow> inside t p \<longrightarrow> fs w' p = None)" by simp
    then show ?thesis by blast
  next
    fix t assume r1: "r1 = Inr t"
      and w1: "w1 = w\<lparr>fs := (fs w)(realpath E t \<mapsto> Dir), trace := trace w @ [Mkdtemp (realpath E t)]\<rparr>"
    obtain r2 w2 where s2: "body t w1 = (r2, w2)" by (cases "body t w1")
    from body [of t] s2 obtain evs where e: "trace w2 = trace w1 @ evs" "\<not> list_ex scratch_made evs"
      unfolding no_scratch_event_def by blast
    from run s1 r1 s2 have w': "w' = rmtree (realpath E t) w2" by (simp add: with_tmpdir_def)
    let ?evs = "Mkdtemp (realpath E t) # evs @ [Rmtree (realpath E t)]"
    have "trace w' = trace w @ ?evs" using w' e w1 by (simp add: rmtree_def)
    moreover have "fs w' p = None" if "Mkdtemp t' \<in> set ?evs" "inside t' p" for t' p
    proof -
      from that(1) e(2) have "t' = realpath E t" using scratch_made_mem by auto
      with that(2) w' show ?thesis by (simp add: rmtree_def)
    qed
    ultimately show ?thesis by blast
  qed
qed

lemma cleans_main: "cleans_scratch (main E a)"
  unfolding main_def
  by (intro cleans_and_then cleans_with_tmpdir no_scratch_get_nm no_scratch_get_exe
      no_scratch_subprocess_run no_scratch_re_compile no_scratch_in_scratch)

text \<open>
  Claim C5. However a run ends, with a result or with the error of any step, a
  scratch directory that the run has made is gone at the end, with everything below
  it: nothing exists at its path or inside it. (A run that fails before the
  \<^verbatim>\<open>with\<close> statement has made none.)
\<close>

theorem scratch_removed:
  assumes "main E a w = (r, w')"
  shows "\<exists>evs. trace w' = trace w @ evs \<and>
           (\<forall>t p. Mkdtemp t \<in> set evs \<longrightarrow> inside t p \<longrightarrow> fs w' p = None)"
  using cleans_main [of E a] assms unfolding cleans_scratch_def by blast

theorem scratch_removed_witness:
  "fst (main sample_env sample_args sample_world) = Inr () \<and>
   Mkdtemp (u ''/tmp/cerbero0'') \<in> set (trace (snd (main sample_env sample_args sample_world))) \<and>
   inside (u ''/tmp/cerbero0'') (u ''/tmp/cerbero0/foo.o'') \<and>
   fs (snd (main sample_env sample_args sample_world)) (u ''/tmp/cerbero0'') = None \<and>
   fs (snd (main sample_env sample_args sample_world)) (u ''/tmp/cerbero0/foo.o'') = None \<and>
   fst (main ar_fails_env sample_args sample_world) = Inl (CalledProcessError 1 (u ''ar: no such archive'')) \<and>
   Mkdtemp (u ''/tmp/cerbero0'') \<in> set (trace (snd (main ar_fails_env sample_args sample_world))) \<and>
   fs (snd (main ar_fails_env sample_args sample_world)) (u ''/tmp/cerbero0'') = None"
proof -
  let ?ok = "main sample_env sample_args sample_world"
  let ?bad = "main ar_fails_env sample_args sample_world"
  have tr: "trace sample_world = []" by (simp add: sample_world_def)
  have ok: "fst ?ok = Inr ()" and ok_ev: "Mkdtemp (u ''/tmp/cerbero0'') \<in> set (trace (snd ?ok))"
    by (simp_all add: script_defs sample_defs)
  have bad: "fst ?bad = Inl (CalledProcessError 1 (u ''ar: no such archive''))"
    and bad_ev: "Mkdtemp (u ''/tmp/cerbero0'') \<in> set (trace (snd ?bad))"
    by (simp_all add: script_defs sample_defs)
  have in1: "inside (u ''/tmp/cerbero0'') (u ''/tmp/cerbero0'')"
    and in2: "inside (u ''/tmp/cerbero0'') (u ''/tmp/cerbero0/foo.o'')"
    by (simp_all add: inside_def u_def)
  from scratch_removed [of sample_env sample_args sample_world "fst ?ok" "snd ?ok"] tr ok_ev in1 in2
  have "fs (snd ?ok) (u ''/tmp/cerbero0'') = None \<and> fs (snd ?ok) (u ''/tmp/cerbero0/foo.o'') = None"
    by auto
  moreover
  from scratch_removed [of ar_fails_env sample_args sample_world "fst ?bad" "snd ?bad"] tr bad_ev in1
  have "fs (snd ?bad) (u ''/tmp/cerbero0'') = None"
    by auto
  ultimately show ?thesis using ok ok_ev bad bad_ev in2 by simp
qed

section \<open>The destination: what every step leaves alone\<close>

lemma leavesI:
  assumes "\<And>w r w'. m w = (r, w') \<Longrightarrow> fs w' d = fs w d"
  shows "leaves d m"
  using assms unfolding leaves_def by blast

lemma leavesD: "leaves d m \<Longrightarrow> m w = (r, w') \<Longrightarrow> fs w' d = fs w d"
  unfolding leaves_def by blast

lemma leaves_ret: "leaves d (ret x)"
  by (simp add: leaves_def ret_def)


lemma leaves_lift: "leaves d (lift r)"
  by (simp add: leaves_def lift_def)

lemma leaves_emit: "leaves d (emit ev)"
  by (auto simp: leaves_def emit_def)

lemma leaves_and_then:
  assumes m: "leaves d m" and f: "\<And>x. leaves d (f x)"
  shows "leaves d (and_then m f)"
proof (rule leavesI)
  fix w r w'
  assume run: "and_then m f w = (r, w')"
  obtain r1 w1 where s1: "m w = (r1, w1)" by (cases "m w")
  note k1 = leavesD [OF m s1]
  show "fs w' d = fs w d"
  proof (cases r1)
    case (Inl e)
    with run s1 k1 show ?thesis by (simp add: and_then_def)
  next
    case (Inr x)
    with run s1 have "f x w1 = (r, w')" by (simp add: and_then_def)
    from leavesD [OF f this] k1 show ?thesis by simp
  qed
qed

lemma leaves_get_exe: "leaves d (get_exe E name)"
  by (rule leavesI) (auto dest: get_exe_world)





lemma leaves_print_each: "leaves d (print_each symbols)"
  by (induction symbols) (auto intro!: leaves_and_then leaves_emit leaves_ret)


lemma leaves_subprocess_run:
  assumes "tools_respect E d" and "\<not> repacks_to E d cmd"
  shows "leaves d (subprocess_run E cmd dir)"
proof (rule leavesI)
  fix w r w'
  assume run: "subprocess_run E cmd dir w = (r, w')"
  obtain pr f' where p: "run_proc E cmd dir (fs w) = (pr, f')" by (cases "run_proc E cmd dir (fs w)")
  show "fs w' d = fs w d"
  proof (cases pr)
    case NotStarted
    with run p show ?thesis by (auto simp: subprocess_run_def Let_def)
  next
    case (Completed rc out err)
    from assms(1) have "case run_proc E cmd dir (fs w) of
        (NotStarted, f') \<Rightarrow> True
      | (Completed rc out err, f') \<Rightarrow> f' d = fs w d \<or> repacks_to E d cmd"
      unfolding tools_respect_def by (elim allE)
    with p Completed assms(2) have "f' d = fs w d" by simp
    with run p Completed show ?thesis by (auto simp: subprocess_run_def Let_def split: if_splits)
  qed
qed

lemma leaves_echo_stderr:
  assumes "leaves d m"
  shows "leaves d (echo_stderr m)"
proof (rule leavesI)
  fix w r w'
  assume run: "echo_stderr m w = (r, w')"
  obtain r1 w1 where s1: "m w = (r1, w1)" by (cases "m w")
  from run s1 have "fs w' = fs w1"
    by (auto simp: echo_stderr_def split: sum.splits error.splits)
  with leavesD [OF assms s1] show "fs w' d = fs w d" by simp
qed

section \<open>The destination: written by the librarian only\<close>











lemma not_repack_three: "\<not> repacks_to E d (Argv [x, y, z])"
  by (simp add: repacks_to_def)

lemma not_repack_shell: "\<not> repacks_to E d (Shell c)"
  by (simp add: repacks_to_def)





lemma sample_tools_respect:
  assumes "d \<noteq> u ''/tmp/cerbero0/foo.o''" and "d \<noteq> u ''/tmp/cerbero0/lib.prelinked.o''"
  shows "tools_respect (sample_env\<lparr>run_proc := sample_tools listing status\<rparr>) d"
  unfolding tools_respect_def
proof (intro allI)
  fix cmd dir f
  let ?E = "sample_env\<lparr>run_proc := sample_tools listing status\<rparr>"
  have rp: "realpath ?E = collapse" by (simp add: sample_env_def)
  have "case sample_tools listing status cmd dir f of
        (NotStarted, f') \<Rightarrow> True
      | (Completed rc out err, f') \<Rightarrow> f' d = f d \<or> repacks_to ?E d cmd"
  proof (cases cmd)
    case (Shell c)
    with assms show ?thesis by (simp add: sample_tools_def)
  next
    case (Argv argv)
    show ?thesis
    proof (cases "hd argv = u ''/usr/bin/nm''")
      case True
      with Argv show ?thesis by (simp add: sample_tools_def)
    next
      case not_nm: False
      show ?thesis
      proof (cases "hd argv = u ''/usr/bin/ar''")
        case True
        with Argv not_nm assms show ?thesis by (simp add: sample_tools_def)
      next
        case not_ar: False
        show ?thesis
        proof (cases "hd argv = u ''/usr/bin/libtool'' \<and> length argv = 5 \<and>
                  argv ! 1 = u ''-static'' \<and> argv ! 2 = u ''-o''")
          case True
          with Argv not_nm not_ar rp show ?thesis
            by (cases "collapse (argv ! 3) = d") (simp_all add: sample_tools_def repacks_to_def)
        next
          case False
          then have "sample_tools listing status cmd dir f = (NotStarted, f)"
            using Argv not_nm not_ar by (auto simp: sample_tools_def)
          then show ?thesis by simp
        qed
      qed
    qed
  qed
  then show "case run_proc ?E cmd dir f of
        (NotStarted, f') \<Rightarrow> True
      | (Completed rc out err, f') \<Rightarrow> f' d = f d \<or> repacks_to ?E d cmd"
    by simp
qed


text \<open>
  Another spelling of the sidecar's path names the same file, so a destination given
  as \<^verbatim>\<open>sub/../lib.symbols\<close> is not apart from the sidecar either.
\<close>

lemma other_spelling_same_file:
  "locate sample_env (u ''sub/../lib.symbols'') = locate sample_env (u ''lib.symbols'')"
  by (simp add: script_defs sample_defs)




section \<open>The sidecar\<close>

lemma splitlines_from_clean:
  assumes "\<forall>c \<in> set acc. \<not> is_linebreak c" and "l \<in> set (splitlines_from acc s)"
  shows "\<forall>c \<in> set l. \<not> is_linebreak c"
  using assms
proof (induction acc s rule: splitlines_from.induct)
  case (1 acc)
  from "1.prems"(2) have "l = rev acc" by (cases "acc = []") simp_all
  with "1.prems"(1) show ?case by simp
next
  case (2 acc x)
  show ?case
  proof (cases "is_linebreak x")
    case True
    with "2.prems"(2) have "l = rev acc" by simp
    with "2.prems"(1) show ?thesis by simp
  next
    case False
    with "2.prems"(2) have "l = rev (x # acc)" by simp
    with "2.prems"(1) False show ?thesis by simp
  qed
next
  case (3 acc x y ys)
  have nil: "\<forall>c \<in> set []. \<not> is_linebreak c" by simp
  show ?case
  proof (cases "x = 13 \<and> y = 10")
    case True
    with "3.prems"(2) have "l = rev acc \<or> l \<in> set (splitlines_from [] ys)" by simp
    then show ?thesis
    proof
      assume "l = rev acc"
      with "3.prems"(1) show ?thesis by simp
    next
      assume "l \<in> set (splitlines_from [] ys)"
      from "3.IH"(1) [OF True nil this] show ?thesis .
    qed
  next
    case crlf: False
    show ?thesis
    proof (cases "is_linebreak x")
      case True
      with crlf "3.prems"(2) have "l = rev acc \<or> l \<in> set (splitlines_from [] (y # ys))"
        by (simp only: splitlines_from.simps if_False if_True set_simps insert_iff)
      then show ?thesis
      proof
        assume "l = rev acc"
        with "3.prems"(1) show ?thesis by simp
      next
        assume "l \<in> set (splitlines_from [] (y # ys))"
        from "3.IH"(2) [OF crlf True nil this] show ?thesis .
      qed
    next
      case False
      with crlf "3.prems"(2) have mem: "l \<in> set (splitlines_from (x # acc) (y # ys))"
        by (simp only: splitlines_from.simps if_False)
      from "3.prems"(1) False have "\<forall>c \<in> set (x # acc). \<not> is_linebreak c" by simp
      from "3.IH"(3) [OF crlf False this mem] show ?thesis .
    qed
  qed
qed

lemma splitlines_clean: "l \<in> set (splitlines s) \<Longrightarrow> \<forall>c \<in> set l. \<not> is_linebreak c"
  unfolding splitlines_def by (rule splitlines_from_clean [of "[]"]) simp_all

lemma split_from_subset: "f \<in> set (split_from sep acc s) \<Longrightarrow> set f \<subseteq> set acc \<union> set s"
proof (induction s arbitrary: acc)
  case Nil
  then show ?case by auto
next
  case (Cons x xs)
  show ?case
  proof (cases "x = sep")
    case True
    with Cons.prems have "f = rev acc \<or> f \<in> set (split_from sep [] xs)" by simp
    with Cons.IH [of "[]"] show ?thesis by auto
  next
    case False
    with Cons.prems have "f \<in> set (split_from sep (x # acc) xs)" by simp
    from Cons.IH [OF this] show ?thesis by auto
  qed
qed

lemma process_line_keep:
  assumes "process_line E pat l k w = (Inr k', w')"
  shows "set k' \<subseteq> set k \<union> set (str_split 32 l)"
  using assms
  by (auto simp: process_line_def and_then_def emit_def ret_def raise_def
      split: list.splits option.splits if_splits)

lemma symbols_loop_keep:
  assumes "symbols_loop E pat lines k w = (Inr keep, w')" and "s \<in> set keep"
  shows "s \<in> set k \<or> (\<exists>l \<in> set lines. s \<in> set (str_split 32 l))"
  using assms
proof (induction lines arbitrary: k w)
  case Nil
  then show ?case by (simp add: ret_def)
next
  case (Cons l lines)
  obtain r1 w1 where s1: "process_line E pat l k w = (r1, w1)" by (cases "process_line E pat l k w")
  with Cons.prems(1) obtain k1 where r1: "r1 = Inr k1"
    and rest: "symbols_loop E pat lines k1 w1 = (Inr keep, w')"
    by (cases r1) (simp_all add: and_then_def)
  from Cons.IH [OF rest Cons.prems(2)] process_line_keep [OF s1 [unfolded r1]]
  show ?case by auto
qed

lemma symbols_loop_clean_lines:
  assumes "symbols_loop E pat lines [] w = (Inr keep, w')"
    and "\<forall>l \<in> set lines. \<forall>c \<in> set l. \<not> is_linebreak c" and "s \<in> set keep"
  shows "\<forall>c \<in> set s. \<not> is_linebreak c"
proof -
  from symbols_loop_keep [OF assms(1,3)] obtain l where l: "l \<in> set lines"
    and s: "s \<in> set (str_split 32 l)" by auto
  from s have "set s \<subseteq> set l"
    using split_from_subset [of s 32 "[]" l] by (simp add: str_split_def)
  with assms(2) l show ?thesis by blast
qed

lemma symbols_loop_clean:
  assumes "symbols_loop E pat (splitlines manifest) [] w = (Inr keep, w')" and "s \<in> set keep"
  shows "\<forall>c \<in> set s. \<not> is_linebreak c"
  using symbols_loop_clean_lines [OF assms(1) _ assms(2)] splitlines_clean by blast

lemma splitlines_from_line:
  assumes "\<forall>c \<in> set s. \<not> is_linebreak c"
  shows "splitlines_from acc (s @ 10 # rest) = (rev acc @ s) # splitlines_from [] rest"
  using assms
proof (induction s arbitrary: acc)
  case Nil
  show ?case by (cases rest) (simp_all add: is_linebreak_def)
next
  case (Cons c s)
  from Cons.prems have c: "\<not> is_linebreak c" and s: "\<forall>c \<in> set s. \<not> is_linebreak c" by simp_all
  from c have c13: "c \<noteq> 13" by (auto simp: is_linebreak_def)
  obtain y ys where tail: "s @ 10 # rest = y # ys" by (cases "s @ 10 # rest") simp_all
  have "splitlines_from acc ((c # s) @ 10 # rest) = splitlines_from (c # acc) (s @ 10 # rest)"
    using c c13 tail by simp
  with Cons.IH [OF s, of "c # acc"] show ?case by simp
qed

lemma splitlines_from_entries:
  assumes "\<forall>s \<in> set xs. \<forall>c \<in> set s. \<not> is_linebreak c"
  shows "splitlines_from [] (concat (map (\<lambda>symbol. symbol @ [10]) xs)) = xs"
  using assms
proof (induction xs)
  case Nil
  show ?case by simp
next
  case (Cons x xs)
  then show ?case using splitlines_from_line [of x "[]" "concat (map (\<lambda>symbol. symbol @ [10]) xs)"]
    by simp
qed

lemma splitlines_module_text:
  assumes "\<forall>s \<in> set xs. \<forall>c \<in> set s. \<not> is_linebreak c"
  shows "splitlines (module_text xs) = u ''# Stripped by Cerbero'' # xs"
proof -
  have "\<forall>c \<in> set (u ''# Stripped by Cerbero''). \<not> is_linebreak c"
    by (simp add: u_def is_linebreak_def)
  from splitlines_from_line [OF this, of "[]" "concat (map (\<lambda>symbol. symbol @ [10]) xs)"]
    splitlines_from_entries [OF assms]
  show ?thesis by (simp add: splitlines_def module_text_def)
qed

lemma path_name_drop: "\<exists>k. path_name p = drop k p"
proof (cases "p = [46]")
  case True
  then have "path_name p = drop 1 p" by (simp add: path_name_def)
  then show ?thesis by blast
next
  case False
  let ?n = "length (takeWhile (\<lambda>c. c \<noteq> 47) (rev p))"
  have "rev (takeWhile (\<lambda>c. c \<noteq> 47) (rev p)) = rev (take ?n (rev p))"
    by (simp add: takeWhile_eq_take [symmetric])
  also have "\<dots> = drop (length p - ?n) p"
    by (simp add: rev_take)
  finally show ?thesis using False by (auto simp: path_name_def)
qed

lemma path_suffix_drop: "\<exists>k. path_suffix p = drop k p"
proof -
  from path_name_drop obtain k where k: "path_name p = drop k p" by blast
  have "path_suffix p = [] \<or> (\<exists>i. path_suffix p = drop i (path_name p))"
    by (auto simp: path_suffix_def Let_def)
  then show ?thesis
  proof
    assume "path_suffix p = []"
    then have "path_suffix p = drop (length p) p" by simp
    then show ?thesis by blast
  next
    assume "\<exists>i. path_suffix p = drop i (path_name p)"
    then obtain i where "path_suffix p = drop i (path_name p)" by blast
    with k have "path_suffix p = drop (i + k) p" by simp
    then show ?thesis by blast
  qed
qed

lemma path_suffix_split: "take (length p - length (path_suffix p)) p @ path_suffix p = p"
proof -
  from path_suffix_drop obtain k where k: "path_suffix p = drop k p" by blast
  show ?thesis
  proof (cases "k \<le> length p")
    case True
    with k show ?thesis by simp
  next
    case False
    with k show ?thesis by simp
  qed
qed

lemma and_then_ok: "m w = (Inr x, w1) \<Longrightarrow> and_then m f w = f x w1"
  by (simp add: and_then_def)

lemma leaves_repack:
  assumes tools: "tools_respect E q" and other: "locate E (dest a) \<noteq> q"
  shows "leaves q (repack E a obj)"
proof -
  have "\<not> repacks_to E q (repack_cmd E a libtool obj)" for libtool
    using other by (simp add: repacks_to_def repack_cmd_def locate_def)
  then show ?thesis
    unfolding repack_def
    by (intro leaves_and_then leaves_emit leaves_echo_stderr leaves_get_exe leaves_ret
        leaves_subprocess_run [OF tools])
qed

lemma leaves_after_sidecar:
  assumes tools: "tools_respect E q" and other: "locate E (dest a) \<noteq> q"
  shows "leaves q
     (and_then (print_symbols E keep) (\<lambda>_.
      and_then (unpack E a t) (\<lambda>_.
      and_then (prelink E a t module) (\<lambda>prelinked_obj. repack E a prelinked_obj))))"
proof -
  have unpack: "leaves q (unpack E a t)"
    unfolding unpack_def
    by (intro leaves_and_then leaves_emit leaves_get_exe leaves_ret
        leaves_subprocess_run [OF tools] not_repack_three)
  have prelink: "leaves q (prelink E a t module)"
    unfolding prelink_def
    by (intro leaves_and_then leaves_emit leaves_lift leaves_echo_stderr leaves_get_exe leaves_ret
        leaves_subprocess_run [OF tools] not_repack_shell)
  have syms: "leaves q (print_symbols E keep)"
    unfolding print_symbols_def by (intro leaves_and_then leaves_emit leaves_print_each)
  show ?thesis
    by (intro leaves_and_then syms unpack prelink leaves_repack [OF tools other])
qed

lemma main_to_sidecar:
  assumes nm: "get_nm E a w = (Inr nm_exe, w1)"
    and ld: "which E (fs w1) (u ''ld'') = Some ld_exe" "ld_exe \<noteq> []"
    and listing: "run_proc E (nm_cmd E a nm_exe) None (fs w1) = (Completed 0 manifest err, f)"
    and pat: "pattern a = Some pat" "re_valid E pat"
    and tmp: "mkdtemp E (w1\<lparr>fs := f, trace := trace w1 @ [Which (u ''ld''), Exec (nm_cmd E a nm_exe) None,
                                         ReCompile (Some pat)]\<rparr>) = (Inr t, w2)"
    and loop: "symbols_loop E pat (splitlines manifest) [] w2 = (Inr keep, w3)"
    and path: "with_suffix (source a) (u ''.symbols'') = Inr module"
    and free: "fs w3 (locate E module) \<noteq> Some Dir" "writable E (fs w3) (locate E module)"
  shows "main E a w =
     (case and_then (print_symbols E keep) (\<lambda>_.
           and_then (unpack E a t) (\<lambda>_.
           and_then (prelink E a t module) (\<lambda>prelinked_obj. repack E a prelinked_obj)))
             (w3\<lparr>fs := (fs w3)(locate E module \<mapsto> File (module_text (set_iter E keep))),
                 trace := trace w3 @ [WriteText (locate E module) (module_text (set_iter E keep))]\<rparr>)
      of (r, w4) \<Rightarrow> (r, rmtree (realpath E t) w4))"
proof -
  let ?wp = "w1\<lparr>fs := f, trace := trace w1 @ [Which (u ''ld''), Exec (nm_cmd E a nm_exe) None,
                                         ReCompile (Some pat)]\<rparr>"
  let ?w4 = "w3\<lparr>fs := (fs w3)(locate E module \<mapsto> File (module_text (set_iter E keep))),
                 trace := trace w3 @ [WriteText (locate E module) (module_text (set_iter E keep))]\<rparr>"
  have prelude: "main E a w = with_tmpdir E (in_scratch E a manifest pat) ?wp"
    using nm ld listing pat
    by (simp add: main_def and_then_def get_exe_def emit_def ret_def subprocess_run_def re_compile_def)
  have wr: "write_module E module keep w3 = (Inr (), ?w4)"
    using free by (simp add: write_module_def write_text_def Let_def)
  have body: "in_scratch E a manifest pat t w2 =
      and_then (print_symbols E keep) (\<lambda>_.
      and_then (unpack E a t) (\<lambda>_.
      and_then (prelink E a t module) (\<lambda>prelinked_obj. repack E a prelinked_obj))) ?w4"
    unfolding in_scratch_def
    by (simp add: and_then_ok [where m = "symbols_loop E pat (splitlines manifest) []", OF loop]
        and_then_ok [where m = "write_module E module keep", OF wr] path
        and_then_ok [where m = "lift (Inr module)" and x = module] lift_def)
  show ?thesis
    unfolding prelude by (simp add: with_tmpdir_def tmp body)
qed

text \<open>
  Claim C2. Take a run in which the steps before the sidecar go through: the tools
  are found, the symbol lister prints a listing, the pattern compiles, the scratch
  directory is made, the loop builds the set, the source path has a name and the
  sidecar may be written. Let the set be iterated in any order without repetition.
  Then the run writes the sidecar at the source path with its extension replaced by
  \<^verbatim>\<open>.symbols\<close> and goes on with the tools from there; the text written is the
  header \<^verbatim>\<open># Stripped by Cerbero\<close> followed by the symbols of the set, one per
  line and each once; reading it back (the header dropped, the lines collected into
  a set) gives the set again; and when no later process touches the sidecar, that
  text is what the file holds when the run ends.
\<close>

theorem sidecar_roundtrip:
  assumes nm: "get_nm E a w = (Inr nm_exe, w1)"
    and ld: "which E (fs w1) (u ''ld'') = Some ld_exe" "ld_exe \<noteq> []"
    and listing: "run_proc E (nm_cmd E a nm_exe) None (fs w1) = (Completed 0 manifest err, f)"
    and pat: "pattern a = Some pat" "re_valid E pat"
    and tmp: "mkdtemp E (w1\<lparr>fs := f, trace := trace w1 @ [Which (u ''ld''), Exec (nm_cmd E a nm_exe) None,
                                         ReCompile (Some pat)]\<rparr>) = (Inr t, w2)"
    and loop: "symbols_loop E pat (splitlines manifest) [] w2 = (Inr keep, w3)"
    and iter: "distinct (set_iter E keep)" "set (set_iter E keep) = set keep"
    and path: "with_suffix (source a) (u ''.symbols'') = Inr module"
    and free: "fs w3 (locate E module) \<noteq> Some Dir" "writable E (fs w3) (locate E module)"
  shows "main E a w =
           (case and_then (print_symbols E keep) (\<lambda>_.
                 and_then (unpack E a t) (\<lambda>_.
                 and_then (prelink E a t module) (\<lambda>prelinked_obj. repack E a prelinked_obj)))
                   (w3\<lparr>fs := (fs w3)(locate E module \<mapsto> File (module_text (set_iter E keep))),
                       trace := trace w3 @ [WriteText (locate E module) (module_text (set_iter E keep))]\<rparr>)
            of (r, w4) \<Rightarrow> (r, rmtree (realpath E t) w4)) \<and>
         source a = take (length (source a) - length (path_suffix (source a))) (source a) @ path_suffix (source a) \<and>
         module = take (length (source a) - length (path_suffix (source a))) (source a) @ u ''.symbols'' \<and>
         splitlines (module_text (set_iter E keep)) = u ''# Stripped by Cerbero'' # set_iter E keep \<and>
         length (splitlines (module_text (set_iter E keep))) = Suc (card (set keep)) \<and>
         spec_read_back (module_text (set_iter E keep)) = set keep \<and>
         (tools_respect E (locate E module) \<and> locate E (dest a) \<noteq> locate E module \<and>
          \<not> inside (realpath E t) (locate E module) \<longrightarrow>
            fs (snd (main E a w)) (locate E module) = Some (File (module_text (set_iter E keep))))"
proof -
  let ?q = "locate E module"
  let ?text = "module_text (set_iter E keep)"
  let ?w4 = "w3\<lparr>fs := (fs w3)(?q \<mapsto> File ?text), trace := trace w3 @ [WriteText ?q ?text]\<rparr>"
  let ?rest = "and_then (print_symbols E keep) (\<lambda>_.
                 and_then (unpack E a t) (\<lambda>_.
                 and_then (prelink E a t module) (\<lambda>prelinked_obj. repack E a prelinked_obj)))"
  note run = main_to_sidecar [OF nm ld listing pat tmp loop path free]
  have src: "source a = take (length (source a) - length (path_suffix (source a))) (source a) @ path_suffix (source a)"
    by (simp add: path_suffix_split)
  have md: "module = take (length (source a) - length (path_suffix (source a))) (source a) @ u ''.symbols''"
    using path by (simp add: with_suffix_def split: if_splits)
  have "\<forall>s \<in> set (set_iter E keep). \<forall>c \<in> set s. \<not> is_linebreak c"
    using symbols_loop_clean [OF loop] iter(2) by blast
  from splitlines_module_text [OF this]
  have ls: "splitlines ?text = u ''# Stripped by Cerbero'' # set_iter E keep" .
  have len: "length (splitlines ?text) = Suc (card (set keep))"
    using ls iter distinct_card [of "set_iter E keep"] by simp
  have rb: "spec_read_back ?text = set keep"
    using ls iter(2) by (simp add: spec_read_back_def)
  have final: "fs (snd (main E a w)) ?q = Some (File ?text)"
    if tools: "tools_respect E ?q" and other: "locate E (dest a) \<noteq> ?q"
      and out: "\<not> inside (realpath E t) ?q"
  proof -
    obtain r w5 where rest: "?rest ?w4 = (r, w5)" by (cases "?rest ?w4")
    from leavesD [OF leaves_after_sidecar [OF tools other] rest]
    have "fs w5 ?q = Some (File ?text)" by simp
    moreover from run rest have "snd (main E a w) = rmtree (realpath E t) w5" by simp
    ultimately show ?thesis using out by (simp add: rmtree_def)
  qed
  from run src md ls len rb final show ?thesis by blast
qed

theorem sidecar_roundtrip_witness:
  "fst (get_nm sample_env sample_args sample_world) = Inr (u ''/usr/bin/nm'') \<and>
   which sample_env (fs sample_world) (u ''ld'') = Some (u ''/usr/bin/ld'') \<and>
   run_proc sample_env (nm_cmd sample_env sample_args (u ''/usr/bin/nm'')) None (fs sample_world)
     = (Completed 0 sample_listing [], fs sample_world) \<and>
   pattern sample_args = Some (u ''_foo'') \<and>
   set_iter sample_env [u ''_foo_init''] = [u ''_foo_init''] \<and>
   with_suffix (source sample_args) (u ''.symbols'') = Inr (u ''lib.symbols'') \<and>
   locate sample_env (u ''lib.symbols'') = u ''/work/lib.symbols'' \<and>
   fs sample_world (u ''/work/lib.symbols'') = None \<and>
   tools_respect sample_env (u ''/work/lib.symbols'') \<and>
   module_text [u ''_foo_init''] = u ''# Stripped by Cerbero'' @ [10] @ u ''_foo_init'' @ [10] \<and>
   splitlines (module_text [u ''_foo_init'']) = [u ''# Stripped by Cerbero'', u ''_foo_init''] \<and>
   spec_read_back (module_text [u ''_foo_init'']) = {u ''_foo_init''} \<and>
   fs (snd (main sample_env sample_args sample_world)) (u ''/work/lib.symbols'')
     = Some (File (module_text [u ''_foo_init'']))"
proof -
  let ?E = sample_env
  let ?a = sample_args
  let ?nm = "u ''/usr/bin/nm''"
  let ?w1 = "sample_world\<lparr>trace := [Which (u ''nm'')]\<rparr>"
  let ?wp = "?w1\<lparr>fs := fs sample_world,
                  trace := trace ?w1 @ [Which (u ''ld''), Exec (nm_cmd ?E ?a ?nm) None,
                                         ReCompile (Some (u ''_foo''))]\<rparr>"
  let ?w2 = "?wp\<lparr>fs := (fs ?wp)(u ''/tmp/cerbero0'' \<mapsto> Dir),
                  trace := trace ?wp @ [Mkdtemp (u ''/tmp/cerbero0'')]\<rparr>"
  let ?w3 = "?w2\<lparr>trace := trace ?w2 @ [ReMatch (u ''_foo_init''), ReMatch (u ''_bar_helper'')]\<rparr>"
  let ?keep = "[u ''_foo_init'']"
  let ?q = "u ''/work/lib.symbols''"
  have nm: "get_nm ?E ?a sample_world = (Inr ?nm, ?w1)"
    by (simp add: script_defs sample_defs)
  have ld: "which ?E (fs ?w1) (u ''ld'') = Some (u ''/usr/bin/ld'')" "u ''/usr/bin/ld'' \<noteq> []"
    by (simp_all add: sample_env_def u_def)
  have listing: "run_proc ?E (nm_cmd ?E ?a ?nm) None (fs ?w1) = (Completed 0 sample_listing [], fs sample_world)"
    by (simp add: sample_env_def sample_tools_def nm_cmd_def u_def)
  have pat: "pattern ?a = Some (u ''_foo'')" "re_valid ?E (u ''_foo'')"
    by (simp_all add: sample_defs)
  have tmp: "mkdtemp ?E ?wp = (Inr (u ''/tmp/cerbero0''), ?w2)"
    by (simp add: script_defs sample_defs)
  have loop: "symbols_loop ?E (u ''_foo'') (splitlines sample_listing) [] ?w2 = (Inr ?keep, ?w3)"
    by (simp add: script_defs sample_defs)
  have it: "set_iter ?E ?keep = ?keep" by (simp add: sample_env_def)
  have iter: "distinct (set_iter ?E ?keep)" "set (set_iter ?E ?keep) = set ?keep"
    by (simp_all add: it)
  have path: "with_suffix (source ?a) (u ''.symbols'') = Inr (u ''lib.symbols'')"
    by (simp add: script_defs sample_defs)
  have loc: "locate ?E (u ''lib.symbols'') = ?q"
    by (simp add: script_defs sample_defs)
  have none: "fs sample_world ?q = None"
    by (simp add: sample_world_def u_def)
  have free: "fs ?w3 (locate ?E (u ''lib.symbols'')) \<noteq> Some Dir"
    "writable ?E (fs ?w3) (locate ?E (u ''lib.symbols''))"
    unfolding loc by (simp_all add: sample_world_def sample_env_def u_def)
  have ne: "?q \<noteq> u ''/tmp/cerbero0/foo.o''" "?q \<noteq> u ''/tmp/cerbero0/lib.prelinked.o''"
    by (simp_all add: u_def)
  have tools: "tools_respect ?E ?q"
    using sample_tools_respect [OF ne, of sample_listing 0] by (simp add: sample_env_def)
  have other: "locate ?E (dest ?a) \<noteq> ?q" and out: "\<not> inside (realpath ?E (u ''/tmp/cerbero0'')) ?q"
    by (simp_all add: script_defs sample_defs)
  have header: "module_text ?keep = u ''# Stripped by Cerbero'' @ [10] @ u ''_foo_init'' @ [10]"
    by (simp add: module_text_def)
  note rt = sidecar_roundtrip [OF nm ld listing pat tmp loop iter path free]
  from rt [THEN conjunct2, THEN conjunct2, THEN conjunct2, THEN conjunct1] it
  have ls: "splitlines (module_text ?keep) = [u ''# Stripped by Cerbero'', u ''_foo_init'']"
    by simp
  from rt [THEN conjunct2, THEN conjunct2, THEN conjunct2, THEN conjunct2, THEN conjunct2, THEN conjunct1] it
  have rb: "spec_read_back (module_text ?keep) = {u ''_foo_init''}"
    by simp
  from rt [THEN conjunct2, THEN conjunct2, THEN conjunct2, THEN conjunct2, THEN conjunct2, THEN conjunct2]
    it loc tools other out
  have fin: "fs (snd (main ?E ?a sample_world)) ?q = Some (File (module_text ?keep))"
    by simp
  from nm ld(1) listing pat(1) it path loc none tools header ls rb fin show ?thesis by simp
qed

section \<open>Two listings of the same symbols\<close>

lemma process_line_order:
  "process_line (E\<lparr>set_iter := order\<rparr>) pat l k = process_line E pat l k"
  by (simp add: process_line_def split: list.splits option.splits)

lemma symbols_loop_order:
  "symbols_loop (E\<lparr>set_iter := order\<rparr>) pat lines k = symbols_loop E pat lines k"
proof (induction lines arbitrary: k)
  case Nil
  show ?case by simp
next
  case (Cons l lines)
  have "symbols_loop (E\<lparr>set_iter := order\<rparr>) pat lines = symbols_loop E pat lines"
    by (rule ext) (rule Cons.IH)
  then show ?case by (simp add: process_line_order)
qed

text \<open>
  Claim C9, as the script has it. Two listings whose lines agree one by one in the
  symbol field, all first fields matching the file pattern, give the same outcome of
  the loop, hence the same set, also in a process that iterates its sets in another
  order: the object name read from the first field has no influence. The sidecars
  then hold the header and the same symbols, one per line and each once, and read
  back to the same set; the order of their lines is the order in which each process
  iterates the set. In one process the world after the write is the same for both
  listings.
\<close>

theorem object_name_irrelevant:
  assumes "list_all2 (\<lambda>x y. symbol_field x = symbol_field y) xs ys"
    and "\<forall>l \<in> set xs \<union> set ys. file_pattern_match (first_field l) \<noteq> None"
  shows "symbols_loop (E\<lparr>set_iter := order\<rparr>) pat ys [] w = symbols_loop E pat xs [] w \<and>
         (\<forall>keep w1.
            symbols_loop E pat xs [] w = (Inr keep, w1) \<and>
            (\<forall>l \<in> set xs. \<forall>c \<in> set l. \<not> is_linebreak c) \<and>
            distinct (set_iter E keep) \<and> set (set_iter E keep) = set keep \<and>
            distinct (order keep) \<and> set (order keep) = set keep \<longrightarrow>
              splitlines (module_text (set_iter E keep)) = u ''# Stripped by Cerbero'' # set_iter E keep \<and>
              splitlines (module_text (order keep)) = u ''# Stripped by Cerbero'' # order keep \<and>
              set (order keep) = set (set_iter E keep) \<and>
              length (order keep) = length (set_iter E keep) \<and>
              spec_read_back (module_text (order keep)) = spec_read_back (module_text (set_iter E keep))) \<and>
         and_then (symbols_loop E pat ys []) (write_module E module) w
           = and_then (symbols_loop E pat xs []) (write_module E module) w"
proof -
  note same = symbols_loop_same_symbols [OF assms, of E pat "[]"]
  have one: "symbols_loop (E\<lparr>set_iter := order\<rparr>) pat ys [] w = symbols_loop E pat xs [] w"
    by (simp add: symbols_loop_order same)
  have two: "splitlines (module_text (set_iter E keep)) = u ''# Stripped by Cerbero'' # set_iter E keep \<and>
      splitlines (module_text (order keep)) = u ''# Stripped by Cerbero'' # order keep \<and>
      set (order keep) = set (set_iter E keep) \<and>
      length (order keep) = length (set_iter E keep) \<and>
      spec_read_back (module_text (order keep)) = spec_read_back (module_text (set_iter E keep))"
    if loop: "symbols_loop E pat xs [] w = (Inr keep, w1)"
      and clean: "\<forall>l \<in> set xs. \<forall>c \<in> set l. \<not> is_linebreak c"
      and it1: "distinct (set_iter E keep)" "set (set_iter E keep) = set keep"
      and it2: "distinct (order keep)" "set (order keep) = set keep"
    for keep w1
  proof -
    have c: "\<forall>s \<in> set keep. \<forall>c \<in> set s. \<not> is_linebreak c"
      using symbols_loop_clean_lines [OF loop clean] by blast
    from c it1(2) have "\<forall>s \<in> set (set_iter E keep). \<forall>c \<in> set s. \<not> is_linebreak c" by simp
    from splitlines_module_text [OF this]
    have l1: "splitlines (module_text (set_iter E keep)) = u ''# Stripped by Cerbero'' # set_iter E keep" .
    from c it2(2) have "\<forall>s \<in> set (order keep). \<forall>c \<in> set s. \<not> is_linebreak c" by simp
    from splitlines_module_text [OF this]
    have l2: "splitlines (module_text (order keep)) = u ''# Stripped by Cerbero'' # order keep" .
    have len: "length (order keep) = length (set_iter E keep)"
      using it1 it2 distinct_card [of "order keep"] distinct_card [of "set_iter E keep"] by simp
    from l1 l2 len it1(2) it2(2) show ?thesis by (simp add: spec_read_back_def)
  qed
  have three: "and_then (symbols_loop E pat ys []) (write_module E module) w
           = and_then (symbols_loop E pat xs []) (write_module E module) w"
    using same by (simp add: and_then_def)
  from one two three show ?thesis by blast
qed

theorem object_name_irrelevant_witness:
  "list_all2 (\<lambda>x y. symbol_field x = symbol_field y) (splitlines sample_listing) (splitlines renamed_listing) \<and>
   list_all (\<lambda>l. file_pattern_match (first_field l) \<noteq> None)
     (splitlines sample_listing @ splitlines renamed_listing) \<and>
   symbols_loop other_env (u ''_'') (splitlines renamed_listing) [] sample_world
     = symbols_loop sample_env (u ''_'') (splitlines sample_listing) [] sample_world \<and>
   fst (symbols_loop sample_env (u ''_'') (splitlines sample_listing) [] sample_world)
     = Inr [u ''_foo_init'', u ''_bar_helper''] \<and>
   set_iter sample_env [u ''_foo_init'', u ''_bar_helper''] = [u ''_foo_init'', u ''_bar_helper''] \<and>
   set_iter other_env [u ''_foo_init'', u ''_bar_helper''] = [u ''_bar_helper'', u ''_foo_init''] \<and>
   spec_read_back (module_text [u ''_bar_helper'', u ''_foo_init''])
     = spec_read_back (module_text [u ''_foo_init'', u ''_bar_helper'']) \<and>
   and_then (symbols_loop sample_env (u ''_'') (splitlines renamed_listing) [])
       (write_module sample_env (u ''lib.symbols'')) sample_world
     = and_then (symbols_loop sample_env (u ''_'') (splitlines sample_listing) [])
       (write_module sample_env (u ''lib.symbols'')) sample_world"
proof -
  let ?keep = "[u ''_foo_init'', u ''_bar_helper'']"
  let ?order = "\<lambda>adds. rev (remdups adds)"
  let ?w1 = "sample_world\<lparr>trace := [ReMatch (u ''_foo_init''), ReMatch (u ''_bar_helper'')]\<rparr>"
  have same: "list_all2 (\<lambda>x y. symbol_field x = symbol_field y)
                (splitlines sample_listing) (splitlines renamed_listing)"
    by (simp add: script_defs sample_defs)
  have ok: "\<forall>l \<in> set (splitlines sample_listing) \<union> set (splitlines renamed_listing).
              file_pattern_match (first_field l) \<noteq> None"
    by (simp add: script_defs sample_defs)
  have loop: "symbols_loop sample_env (u ''_'') (splitlines sample_listing) [] sample_world = (Inr ?keep, ?w1)"
    by (simp add: script_defs sample_defs)
  have clean: "\<forall>l \<in> set (splitlines sample_listing). \<forall>c \<in> set l. \<not> is_linebreak c"
    using splitlines_clean by blast
  have ne: "u ''_foo_init'' \<noteq> u ''_bar_helper''" by (simp add: u_def)
  have it1: "set_iter sample_env ?keep = ?keep" using ne by (simp add: sample_env_def)
  have it2: "?order ?keep = [u ''_bar_helper'', u ''_foo_init'']" using ne by simp
  have it2': "set_iter other_env ?keep = [u ''_bar_helper'', u ''_foo_init'']"
    using it2 by (simp add: other_env_def)
  have valid: "distinct (set_iter sample_env ?keep)" "set (set_iter sample_env ?keep) = set ?keep"
    "distinct (?order ?keep)" "set (?order ?keep) = set ?keep"
    using ne by (auto simp: it1)
  have env: "sample_env\<lparr>set_iter := ?order\<rparr>\<lparr>run_proc := sample_tools renamed_listing 0\<rparr> = other_env"
    by (simp add: other_env_def)
  note inst = object_name_irrelevant [OF same ok, where E = sample_env and order = ?order
      and pat = "u ''_''" and w = sample_world and module = "u ''lib.symbols''"]
  have one: "symbols_loop other_env (u ''_'') (splitlines renamed_listing) [] sample_world
     = symbols_loop sample_env (u ''_'') (splitlines sample_listing) [] sample_world"
    by (simp add: script_defs sample_defs)
  from inst [THEN conjunct2, THEN conjunct1, rule_format, of ?keep ?w1] loop clean valid
  have "spec_read_back (module_text (?order ?keep)) = spec_read_back (module_text (set_iter sample_env ?keep))"
    by blast
  with it1 it2
  have two: "spec_read_back (module_text [u ''_bar_helper'', u ''_foo_init''])
     = spec_read_back (module_text ?keep)"
    by simp
  note three = inst [THEN conjunct2, THEN conjunct2]
  from loop have l: "fst (symbols_loop sample_env (u ''_'') (splitlines sample_listing) [] sample_world) = Inr ?keep"
    by simp
  from same ok one l it1 it2' two three show ?thesis by (simp add: list_all_iff ball_Un)
qed

text \<open>
  Claim C9 as stated (identical sidecar contents) fails for two processes that
  iterate their sets in different orders. Both listings hold the same two symbols
  line for line under other object names and the pattern keeps both; the first run
  writes \<^verbatim>\<open>_foo_init\<close> before \<^verbatim>\<open>_bar_helper\<close>, the second the other way round.
\<close>

theorem sidecar_order_counterexample:
  "list_all2 (\<lambda>x y. symbol_field x = symbol_field y) (splitlines sample_listing) (splitlines renamed_listing) \<and>
   list_all (\<lambda>l. file_pattern_match (first_field l) \<noteq> None)
     (splitlines sample_listing @ splitlines renamed_listing) \<and>
   run_proc sample_env (nm_cmd sample_env both_args (u ''/usr/bin/nm'')) None (fs sample_world)
     = (Completed 0 sample_listing [], fs sample_world) \<and>
   run_proc other_env (nm_cmd other_env both_args (u ''/usr/bin/nm'')) None (fs sample_world)
     = (Completed 0 renamed_listing [], fs sample_world) \<and>
   fst (main sample_env both_args sample_world) = Inr () \<and>
   fst (main other_env both_args sample_world) = Inr () \<and>
   fs (snd (main sample_env both_args sample_world)) (u ''/work/lib.symbols'')
     = Some (File (u ''# Stripped by Cerbero'' @ [10] @ u ''_foo_init'' @ [10] @ u ''_bar_helper'' @ [10])) \<and>
   fs (snd (main other_env both_args sample_world)) (u ''/work/lib.symbols'')
     = Some (File (u ''# Stripped by Cerbero'' @ [10] @ u ''_bar_helper'' @ [10] @ u ''_foo_init'' @ [10]))"
  by (simp add: script_defs sample_defs)

end
